theory Spec2Isabelle
  imports Main
begin

section \<open>Calendar model\<close>

text \<open>
  The program builds a one-week nurse roster as a boolean constraint model.  A key of the
  variable dictionary is the tuple \<open>(dep, n, day, s)\<close>: department, nurse, day, slot.
  The department and nurse counts are the two sizes of the model; the week itself
  (seven days, two slots on a weekday, one on a weekend day) is fixed.
\<close>

type_synonym key = "nat \<times> nat \<times> nat \<times> nat"

type_synonym var = nat

record config =
  num_departments :: nat
  num_nurses :: nat

definition main_config :: config where
  "main_config = \<lparr>num_departments = 15, num_nurses = 100\<rparr>"

definition num_days :: nat where
  "num_days = 7"

definition num_weekday_shifts :: nat where
  "num_weekday_shifts = 2"

definition num_weekend_shifts :: nat where
  "num_weekend_shifts = 1"

definition weekdays :: "nat list" where
  "weekdays = [0..<5]"

definition weekends :: "nat list" where
  "weekends = [5..<7]"

text \<open>The expression \<open>num_weekday_shifts if day in weekdays else num_weekend_shifts\<close>.\<close>

definition num_shifts :: "nat \<Rightarrow> nat" where
  "num_shifts day = (if day \<in> set weekdays then num_weekday_shifts else num_weekend_shifts)"

section \<open>The constraint model\<close>

datatype cmp = Eq | Le | Ge

text \<open>A linear constraint: the sum of the listed boolean variables compared with a bound.\<close>

datatype constraint = Constraint (c_terms: "var list") (c_cmp: cmp) (c_bound: int)

record cp_model =
  num_vars :: nat
  constraints :: "constraint list"

definition empty_model :: cp_model where
  "empty_model = \<lparr>num_vars = 0, constraints = []\<rparr>"

text \<open>
  \<open>model.NewBoolVar(name)\<close> appends a fresh variable to the model and returns it; the
  variable is identified by its position, the label is not read again.
\<close>

definition new_bool_var :: "cp_model \<Rightarrow> var \<times> cp_model" where
  "new_bool_var m = (num_vars m, m\<lparr>num_vars := Suc (num_vars m)\<rparr>)"

text \<open>\<open>model.Add(ct)\<close> appends a constraint.\<close>

definition add :: "constraint \<Rightarrow> cp_model \<Rightarrow> cp_model" where
  "add c m = m\<lparr>constraints := constraints m @ [c]\<rparr>"

definition lhs :: "(var \<Rightarrow> bool) \<Rightarrow> var list \<Rightarrow> int" where
  "lhs sol vs = (\<Sum>v\<leftarrow>vs. if sol v then 1 else 0)"

fun holds :: "(var \<Rightarrow> bool) \<Rightarrow> constraint \<Rightarrow> bool" where
  "holds sol (Constraint vs Eq b) = (lhs sol vs = b)"
| "holds sol (Constraint vs Le b) = (lhs sol vs \<le> b)"
| "holds sol (Constraint vs Ge b) = (lhs sol vs \<ge> b)"

text \<open>A solution gives every variable a boolean value and satisfies every constraint.\<close>

definition satisfies :: "cp_model \<Rightarrow> (var \<Rightarrow> bool) \<Rightarrow> bool" where
  "satisfies m sol = list_all (holds sol) (constraints m)"

section \<open>Creating the shift variables\<close>

text \<open>The four nested loops of variable creation visit the keys in this order.\<close>

definition all_keys :: "config \<Rightarrow> key list" where
  "all_keys cfg =
     [(dep, n, day, s).
        dep \<leftarrow> [0..<num_departments cfg],
        n \<leftarrow> [0..<num_nurses cfg],
        day \<leftarrow> [0..<num_days],
        s \<leftarrow> [0..<num_shifts day]]"

fun create_step :: "key \<Rightarrow> cp_model \<times> (key \<rightharpoonup> var) \<Rightarrow> cp_model \<times> (key \<rightharpoonup> var)" where
  "create_step k (m, shifts) = (case new_bool_var m of (v, m') \<Rightarrow> (m', shifts(k \<mapsto> v)))"

definition create_variables :: "config \<Rightarrow> cp_model \<Rightarrow> cp_model \<times> (key \<rightharpoonup> var)" where
  "create_variables cfg m = fold create_step (all_keys cfg) (m, Map.empty)"

definition legal :: "config \<Rightarrow> key set" where
  "legal cfg = {(dep, n, day, s).
     dep < num_departments cfg \<and> n < num_nurses cfg \<and> day < num_days \<and> s < num_shifts day}"

section \<open>Errors and loops\<close>

text \<open>
  The exceptions the model-building code can raise: a dictionary lookup of an absent key,
  a read of a loop variable whose loop never ran, and a division by zero.
\<close>

datatype error = KeyError | UnboundLocalError | ZeroDivisionError

text \<open>\<open>shifts[k]\<close>.\<close>

definition getitem :: "(key \<rightharpoonup> var) \<Rightarrow> key \<Rightarrow> error + var" where
  "getitem shifts k = (case shifts k of None \<Rightarrow> Inl KeyError | Some v \<Rightarrow> Inr v)"

text \<open>The lookups of a generator expression, in order; the first absent key raises.\<close>

fun getitems :: "(key \<rightharpoonup> var) \<Rightarrow> key list \<Rightarrow> error + var list" where
  "getitems shifts [] = Inr []"
| "getitems shifts (k # ks) =
     (case getitem shifts k of
        Inl e \<Rightarrow> Inl e
      | Inr v \<Rightarrow> (case getitems shifts ks of Inl e \<Rightarrow> Inl e | Inr vs \<Rightarrow> Inr (v # vs)))"

text \<open>A \<open>for\<close> loop whose body updates a state and may raise.\<close>

fun for_each :: "'a list \<Rightarrow> ('a \<Rightarrow> 's \<Rightarrow> error + 's) \<Rightarrow> 's \<Rightarrow> error + 's" where
  "for_each [] body st = Inr st"
| "for_each (x # xs) body st =
     (case body x st of Inl e \<Rightarrow> Inl e | Inr st' \<Rightarrow> for_each xs body st')"

text \<open>The value a loop variable keeps after its loop; unbound when the range was empty.\<close>

definition loop_var_after :: "'a list \<Rightarrow> 'a option" where
  "loop_var_after xs = (if xs = [] then None else Some (last xs))"

text \<open>\<open>model.Add(sum(shifts[k] for k in ks) cmp bound)\<close>.\<close>

definition add_sum :: "(key \<rightharpoonup> var) \<Rightarrow> key list \<Rightarrow> cmp \<Rightarrow> int \<Rightarrow> cp_model \<Rightarrow> error + cp_model" where
  "add_sum shifts ks c b m =
     (case getitems shifts ks of Inl e \<Rightarrow> Inl e | Inr vs \<Rightarrow> Inr (add (Constraint vs c b) m))"

section \<open>The constraint encoder\<close>

text \<open>Each shift in each department is assigned to exactly one nurse (source lines 28 to 32).\<close>

definition coverage_keys :: "config \<Rightarrow> nat \<Rightarrow> nat \<Rightarrow> key list" where
  "coverage_keys cfg dep day =
     [(dep, n, day, s). n \<leftarrow> [0..<num_nurses cfg], s \<leftarrow> [0..<num_shifts day]]"

definition add_coverage :: "config \<Rightarrow> (key \<rightharpoonup> var) \<Rightarrow> cp_model \<Rightarrow> error + cp_model" where
  "add_coverage cfg shifts =
     for_each [0..<num_departments cfg] (\<lambda>dep.
       for_each [0..<num_days] (\<lambda>day.
         add_sum shifts (coverage_keys cfg dep day) Eq (int (num_shifts day))))"

text \<open>
  Allow up to 2 consecutive shifts only during weekdays (source lines 34 to 40).  The
  loops bind the nurse, the day and the slot; \<open>dep\<close> is whatever an earlier loop left.
\<close>

definition add_consecutive ::
  "config \<Rightarrow> nat option \<Rightarrow> (key \<rightharpoonup> var) \<Rightarrow> cp_model \<Rightarrow> error + cp_model" where
  "add_consecutive cfg dep_var shifts =
     for_each [0..<num_nurses cfg] (\<lambda>n.
       for_each weekdays (\<lambda>day.
         for_each [0..<num_weekday_shifts] (\<lambda>s m.
           if s < num_weekday_shifts - 1 then
             (case dep_var of
                None \<Rightarrow> Inl UnboundLocalError
              | Some dep \<Rightarrow> add_sum shifts [(dep, n, day, s), (dep, n, day, s + 1)] Le 2 m)
           else Inr m)))"

text \<open>
  Ensure a 48-hour rest period after a shift or 2 consecutive shifts (source lines 42 to
  62).  Again \<open>dep\<close> is not bound by these loops.  The candidate later slots are those of
  \<open>range(day + 1, min(day + 3, num_days))\<close>.
\<close>

definition next_slots :: "nat \<Rightarrow> (nat \<times> nat) list" where
  "next_slots day =
     [(next_day, next_s).
        next_day \<leftarrow> [day + 1..<min (day + 3) num_days],
        next_s \<leftarrow> [0..<num_shifts next_day]]"

definition add_rest ::
  "config \<Rightarrow> nat option \<Rightarrow> (key \<rightharpoonup> var) \<Rightarrow> cp_model \<Rightarrow> error + cp_model" where
  "add_rest cfg dep_var shifts =
     for_each [0..<num_nurses cfg] (\<lambda>n.
       for_each [0..<num_days] (\<lambda>day m0.
         if day < num_days - 2 then
           for_each [0..<num_shifts day] (\<lambda>s m.
             case dep_var of
               None \<Rightarrow> Inl UnboundLocalError
             | Some dep \<Rightarrow>
                 if shifts (dep, n, day, s) \<noteq> None then
                   (case for_each (next_slots day) (\<lambda>(next_day, next_s) m1.
                           if shifts (dep, n, next_day, next_s) \<noteq> None then
                             add_sum shifts [(dep, n, day, s), (dep, n, next_day, next_s)] Le 1 m1
                           else Inr m1) m of
                      Inl e \<Rightarrow> Inl e
                    | Inr m' \<Rightarrow>
                        if s < num_shifts day - 1 then
                          for_each (next_slots day) (\<lambda>(next_day, next_s) m2.
                            if shifts (dep, n, next_day, next_s) \<noteq> None then
                              add_sum shifts
                                [(dep, n, day, s), (dep, n, day, s + 1), (dep, n, next_day, next_s)]
                                Le 2 m2
                            else Inr m2) m'
                        else Inr m')
                 else Inr m) m0
         else Inr m0))"

text \<open>
  Ensure that nurses do not work in more than one department on the same day (source
  lines 64 to 68).
\<close>

definition day_keys :: "config \<Rightarrow> nat \<Rightarrow> nat \<Rightarrow> key list" where
  "day_keys cfg n day =
     [(dep, n, day, s). dep \<leftarrow> [0..<num_departments cfg], s \<leftarrow> [0..<num_shifts day]]"

definition add_single_department :: "config \<Rightarrow> (key \<rightharpoonup> var) \<Rightarrow> cp_model \<Rightarrow> error + cp_model" where
  "add_single_department cfg shifts =
     for_each [0..<num_nurses cfg] (\<lambda>n.
       for_each [0..<num_days] (\<lambda>day.
         add_sum shifts (day_keys cfg n day) Le 1))"

text \<open>Ensure nurses do not work on both weekend days (source lines 70 to 74).\<close>

definition weekend_keys :: "config \<Rightarrow> nat \<Rightarrow> key list" where
  "weekend_keys cfg n =
     [(dep, n, day, s).
        dep \<leftarrow> [0..<num_departments cfg], day \<leftarrow> weekends, s \<leftarrow> [0..<num_weekend_shifts]]"

definition add_weekend :: "config \<Rightarrow> (key \<rightharpoonup> var) \<Rightarrow> cp_model \<Rightarrow> error + cp_model" where
  "add_weekend cfg shifts =
     for_each [0..<num_nurses cfg] (\<lambda>n. add_sum shifts (weekend_keys cfg n) Le 1)"

text \<open>Try to distribute the shifts evenly (source lines 76 to 88).\<close>

definition total_shifts :: "config \<Rightarrow> nat" where
  "total_shifts cfg =
     num_departments cfg *
       (num_weekday_shifts * length weekdays + num_weekend_shifts * length weekends)"

text \<open>\<open>a // b\<close> on non-negative integers.\<close>

definition floordiv :: "nat \<Rightarrow> nat \<Rightarrow> error + nat" where
  "floordiv a b = (if b = 0 then Inl ZeroDivisionError else Inr (a div b))"

definition min_shifts_per_nurse :: "config \<Rightarrow> error + nat" where
  "min_shifts_per_nurse cfg = floordiv (total_shifts cfg) (num_nurses cfg)"

definition max_shifts_per_nurse :: "config \<Rightarrow> error + nat" where
  "max_shifts_per_nurse cfg =
     (case min_shifts_per_nurse cfg of
        Inl e \<Rightarrow> Inl e
      | Inr mn \<Rightarrow> Inr (if total_shifts cfg mod num_nurses cfg \<noteq> 0 then mn + 1 else mn))"

definition shifts_worked :: "config \<Rightarrow> nat \<Rightarrow> key list" where
  "shifts_worked cfg n =
     [(dep, n, day, s).
        dep \<leftarrow> [0..<num_departments cfg], day \<leftarrow> [0..<num_days], s \<leftarrow> [0..<num_shifts day]]"

definition add_fairness :: "config \<Rightarrow> (key \<rightharpoonup> var) \<Rightarrow> cp_model \<Rightarrow> error + cp_model" where
  "add_fairness cfg shifts m =
     (case min_shifts_per_nurse cfg of
        Inl e \<Rightarrow> Inl e
      | Inr mn \<Rightarrow>
          (case max_shifts_per_nurse cfg of
             Inl e \<Rightarrow> Inl e
           | Inr mx \<Rightarrow>
               for_each [0..<num_nurses cfg] (\<lambda>n m1.
                 case getitems shifts (shifts_worked cfg n) of
                   Inl e \<Rightarrow> Inl e
                 | Inr vs \<Rightarrow> Inr (add (Constraint vs Le (int mx)) (add (Constraint vs Ge (int mn)) m1)))
                 m))"

text \<open>
  The model-building part of \<open>main\<close>: the variables, then the six groups of constraints
  in source order.  The department loops over \<open>all_departments\<close> before line 34 leave
  \<open>dep\<close> at the last department.
\<close>

definition build_model :: "config \<Rightarrow> error + cp_model \<times> (key \<rightharpoonup> var)" where
  "build_model cfg =
     (case create_variables cfg empty_model of
        (m, shifts) \<Rightarrow>
          (case for_each
                  [add_coverage cfg shifts,
                   add_consecutive cfg (loop_var_after [0..<num_departments cfg]) shifts,
                   add_rest cfg (loop_var_after [0..<num_departments cfg]) shifts,
                   add_single_department cfg shifts,
                   add_weekend cfg shifts,
                   add_fairness cfg shifts]
                  (\<lambda>step. step) m of
             Inl e \<Rightarrow> Inl e
           | Inr m' \<Rightarrow> Inr (m', shifts)))"


text \<open>The variable dictionary \<open>main\<close> builds, and the variable it holds for a key.\<close>

definition shifts_of :: "config \<Rightarrow> key \<rightharpoonup> var" where
  "shifts_of cfg = snd (create_variables cfg empty_model)"

definition var_of :: "config \<Rightarrow> key \<Rightarrow> var" where
  "var_of cfg k = the (shifts_of cfg k)"

section \<open>Reading a solution\<close>

text \<open>\<open>solver.Value(shifts[k])\<close> as a truth value; a key without a variable counts as false.\<close>

definition assigned :: "(key \<rightharpoonup> var) \<Rightarrow> (var \<Rightarrow> bool) \<Rightarrow> key \<Rightarrow> bool" where
  "assigned shifts sol k = (case shifts k of None \<Rightarrow> False | Some v \<Rightarrow> sol v)"

text \<open>How many of the listed keys are worked in a solution.\<close>

definition worked :: "(key \<rightharpoonup> var) \<Rightarrow> (var \<Rightarrow> bool) \<Rightarrow> key list \<Rightarrow> nat" where
  "worked shifts sol ks = length (filter (assigned shifts sol) ks)"

section \<open>The solution callback\<close>

text \<open>
  \<open>_department_schedule\<close> is a dictionary of dictionaries of dictionaries: department,
  then day, then slot, to a nurse or \<open>None\<close>.
\<close>

type_synonym schedule = "nat \<rightharpoonup> (nat \<rightharpoonup> (nat \<rightharpoonup> nat option))"

text \<open>
  The fields of \<open>NursesPartialSolutionPrinter\<close>; \<open>stopped\<close> records a call of
  \<open>StopSearch\<close>.
\<close>

record printer =
  self_shifts :: "key \<rightharpoonup> var"
  self_num_nurses :: nat
  self_num_days :: nat
  self_num_weekday_shifts :: nat
  self_num_weekend_shifts :: nat
  self_num_departments :: nat
  self_solution_count :: nat
  self_solution_limit :: nat
  self_department_schedule :: schedule
  stopped :: bool

text \<open>The dictionary comprehension \<open>{k: f(k) for k in range(n)}\<close>.\<close>

definition dict_of_range :: "nat \<Rightarrow> (nat \<Rightarrow> 'a) \<Rightarrow> nat \<rightharpoonup> 'a" where
  "dict_of_range n f = (\<lambda>k. if k < n then Some (f k) else None)"

text \<open>\<open>__init__\<close> (source lines 98 to 108).\<close>

definition init_printer ::
  "(key \<rightharpoonup> var) \<Rightarrow> nat \<Rightarrow> nat \<Rightarrow> nat \<Rightarrow> nat \<Rightarrow> nat \<Rightarrow> nat \<Rightarrow> printer" where
  "init_printer shifts nurses days weekday_shifts weekend_shifts departments limit =
     \<lparr>self_shifts = shifts,
      self_num_nurses = nurses,
      self_num_days = days,
      self_num_weekday_shifts = weekday_shifts,
      self_num_weekend_shifts = weekend_shifts,
      self_num_departments = departments,
      self_solution_count = 0,
      self_solution_limit = limit,
      self_department_schedule =
        dict_of_range departments (\<lambda>dep.
          dict_of_range days (\<lambda>day.
            dict_of_range (if day < 5 then weekday_shifts else weekend_shifts) (\<lambda>s. None))),
      stopped = False\<rparr>"

text \<open>\<open>self._department_schedule[dep][day][s] = n\<close>: the two outer lookups can raise.\<close>

definition set_cell :: "nat \<times> nat \<times> nat \<times> nat \<Rightarrow> schedule \<Rightarrow> error + schedule" where
  "set_cell w sched =
     (case w of (dep, day, s, n) \<Rightarrow>
        (case sched dep of
           None \<Rightarrow> Inl KeyError
         | Some by_day \<Rightarrow>
             (case by_day day of
                None \<Rightarrow> Inl KeyError
              | Some by_slot \<Rightarrow> Inr (sched(dep \<mapsto> by_day(day \<mapsto> by_slot(s \<mapsto> Some n)))))))"

text \<open>\<open>department_schedule[dep][day][s]\<close>, as the reporting loop reads it.\<close>

definition schedule_at :: "schedule \<Rightarrow> nat \<Rightarrow> nat \<Rightarrow> nat \<Rightarrow> error + nat option" where
  "schedule_at sched dep day s =
     (case sched dep of
        None \<Rightarrow> Inl KeyError
      | Some by_day \<Rightarrow>
          (case by_day day of
             None \<Rightarrow> Inl KeyError
           | Some by_slot \<Rightarrow> (case by_slot s of None \<Rightarrow> Inl KeyError | Some x \<Rightarrow> Inr x)))"

text \<open>
  The four loops of \<open>on_solution_callback\<close> (source lines 112 to 118); \<open>val\<close> is
  \<open>self.Value\<close>, read as a truth value.
\<close>

definition record_solution :: "(var \<Rightarrow> bool) \<Rightarrow> printer \<Rightarrow> schedule \<Rightarrow> error + schedule" where
  "record_solution val p =
     for_each [0..<self_num_departments p] (\<lambda>dep.
       for_each [0..<self_num_days p] (\<lambda>day.
         for_each
           [0..<(if day < 5 then self_num_weekday_shifts p else self_num_weekend_shifts p)]
           (\<lambda>s.
             for_each [0..<self_num_nurses p] (\<lambda>n sched.
               case getitem (self_shifts p) (dep, n, day, s) of
                 Inl e \<Rightarrow> Inl e
               | Inr v \<Rightarrow> if val v then set_cell (dep, day, s, n) sched else Inr sched))))"

text \<open>\<open>on_solution_callback\<close> (source lines 110 to 121).\<close>

definition on_solution_callback :: "(var \<Rightarrow> bool) \<Rightarrow> printer \<Rightarrow> error + printer" where
  "on_solution_callback val p =
     (let p1 = p\<lparr>self_solution_count := self_solution_count p + 1\<rparr> in
      case record_solution val p1 (self_department_schedule p1) of
        Inl e \<Rightarrow> Inl e
      | Inr sched \<Rightarrow>
          (let p2 = p1\<lparr>self_department_schedule := sched\<rparr> in
           Inr (if self_solution_limit p2 \<le> self_solution_count p2
                then p2\<lparr>stopped := True\<rparr> else p2)))"

text \<open>
  The writes the four loops make when no lookup raises, in loop order, and the last
  nurse written to a cell by a list of writes.
\<close>

definition writes :: "(var \<Rightarrow> bool) \<Rightarrow> printer \<Rightarrow> (nat \<times> nat \<times> nat \<times> nat) list" where
  "writes val p =
     concat (map (\<lambda>dep.
       concat (map (\<lambda>day.
         concat (map (\<lambda>s.
           map (\<lambda>n. (dep, day, s, n))
             (filter (\<lambda>n. assigned (self_shifts p) val (dep, n, day, s)) [0..<self_num_nurses p]))
           [0..<(if day < 5 then self_num_weekday_shifts p else self_num_weekend_shifts p)]))
         [0..<self_num_days p])) [0..<self_num_departments p])"

definition cell_of :: "nat \<times> nat \<times> nat \<times> nat \<Rightarrow> nat \<times> nat \<times> nat" where
  "cell_of w = (case w of (dep, day, s, n) \<Rightarrow> (dep, day, s))"

fun last_write :: "nat \<times> nat \<times> nat \<Rightarrow> (nat \<times> nat \<times> nat \<times> nat) list \<Rightarrow> nat option" where
  "last_write c [] = None"
| "last_write c (w # ws) =
     (case last_write c ws of
        Some n \<Rightarrow> Some n
      | None \<Rightarrow> (case w of (dep, day, s, n) \<Rightarrow> if (dep, day, s) = c then Some n else None))"

section \<open>Auxiliary notions for the proofs\<close>

text \<open>
  Every variable handed out so far is below the model's counter, and distinct keys hold
  distinct variables; one creation step keeps both.
\<close>

definition fresh_inv :: "cp_model \<times> (key \<rightharpoonup> var) \<Rightarrow> bool" where
  "fresh_inv st = (case st of (m, shifts) \<Rightarrow>
     inj_on shifts (dom shifts) \<and> (\<forall>k v. shifts k = Some v \<longrightarrow> v < num_vars m))"

text \<open>Appending a batch of constraints.\<close>

definition adds :: "constraint list \<Rightarrow> cp_model \<Rightarrow> cp_model" where
  "adds cs m = m\<lparr>constraints := constraints m @ cs\<rparr>"

text \<open>The constraint over the variables of a list of keys that all have one.\<close>

definition key_constraint :: "(key \<rightharpoonup> var) \<Rightarrow> key list \<Rightarrow> cmp \<Rightarrow> int \<Rightarrow> constraint" where
  "key_constraint shifts ks c b = Constraint (map (\<lambda>k. the (shifts k)) ks) c b"

text \<open>
  The constraints each encoder adds when every lookup succeeds and every membership test
  of the rest encoder is true, in the order the loops add them.
\<close>

definition coverage_cs :: "config \<Rightarrow> (key \<rightharpoonup> var) \<Rightarrow> constraint list" where
  "coverage_cs cfg shifts =
     concat (map (\<lambda>dep.
       map (\<lambda>day. key_constraint shifts (coverage_keys cfg dep day) Eq (int (num_shifts day)))
         [0..<num_days]) [0..<num_departments cfg])"

definition consecutive_cs :: "config \<Rightarrow> (key \<rightharpoonup> var) \<Rightarrow> nat \<Rightarrow> constraint list" where
  "consecutive_cs cfg shifts dep =
     concat (map (\<lambda>n.
       map (\<lambda>day. key_constraint shifts [(dep, n, day, 0), (dep, n, day, 1)] Le 2) weekdays)
         [0..<num_nurses cfg])"

definition rest_after :: "(key \<rightharpoonup> var) \<Rightarrow> nat \<Rightarrow> nat \<Rightarrow> nat \<Rightarrow> nat \<Rightarrow> constraint list" where
  "rest_after shifts dep n day s =
     map (\<lambda>(next_day, next_s).
            key_constraint shifts [(dep, n, day, s), (dep, n, next_day, next_s)] Le 1)
       (next_slots day) @
     (if s < num_shifts day - 1 then
        map (\<lambda>(next_day, next_s).
               key_constraint shifts
                 [(dep, n, day, s), (dep, n, day, s + 1), (dep, n, next_day, next_s)] Le 2)
          (next_slots day)
      else [])"

definition rest_cs :: "config \<Rightarrow> (key \<rightharpoonup> var) \<Rightarrow> nat \<Rightarrow> constraint list" where
  "rest_cs cfg shifts dep =
     concat (map (\<lambda>n.
       concat (map (\<lambda>day.
         if day < num_days - 2 then
           concat (map (\<lambda>s. rest_after shifts dep n day s) [0..<num_shifts day])
         else []) [0..<num_days])) [0..<num_nurses cfg])"

definition single_department_cs :: "config \<Rightarrow> (key \<rightharpoonup> var) \<Rightarrow> constraint list" where
  "single_department_cs cfg shifts =
     concat (map (\<lambda>n. map (\<lambda>day. key_constraint shifts (day_keys cfg n day) Le 1) [0..<num_days])
       [0..<num_nurses cfg])"

definition weekend_cs :: "config \<Rightarrow> (key \<rightharpoonup> var) \<Rightarrow> constraint list" where
  "weekend_cs cfg shifts =
     map (\<lambda>n. key_constraint shifts (weekend_keys cfg n) Le 1) [0..<num_nurses cfg]"

definition band_min :: "config \<Rightarrow> nat" where
  "band_min cfg = total_shifts cfg div num_nurses cfg"

definition band_max :: "config \<Rightarrow> nat" where
  "band_max cfg =
     (if total_shifts cfg mod num_nurses cfg \<noteq> 0 then band_min cfg + 1 else band_min cfg)"

definition fairness_cs :: "config \<Rightarrow> (key \<rightharpoonup> var) \<Rightarrow> constraint list" where
  "fairness_cs cfg shifts =
     concat (map (\<lambda>n.
       [key_constraint shifts (shifts_worked cfg n) Ge (int (band_min cfg)),
        key_constraint shifts (shifts_worked cfg n) Le (int (band_max cfg))])
       [0..<num_nurses cfg])"

definition all_cs :: "config \<Rightarrow> (key \<rightharpoonup> var) \<Rightarrow> constraint list" where
  "all_cs cfg shifts =
     coverage_cs cfg shifts @
     consecutive_cs cfg shifts (num_departments cfg - 1) @
     rest_cs cfg shifts (num_departments cfg - 1) @
     single_department_cs cfg shifts @
     weekend_cs cfg shifts @
     fairness_cs cfg shifts"

text \<open>The keys of one slot of one department on one day, over all nurses.\<close>

definition cell_keys :: "config \<Rightarrow> nat \<Rightarrow> nat \<Rightarrow> nat \<Rightarrow> key list" where
  "cell_keys cfg dep day s = [(dep, n, day, s). n \<leftarrow> [0..<num_nurses cfg]]"

text \<open>No lookup of the four loops of the callback raises.\<close>

definition keys_ok :: "printer \<Rightarrow> bool" where
  "keys_ok p = (\<forall>dep < self_num_departments p. \<forall>day < self_num_days p.
     \<forall>s < (if day < 5 then self_num_weekday_shifts p else self_num_weekend_shifts p).
     \<forall>n < self_num_nurses p. (dep, n, day, s) \<in> dom (self_shifts p))"

text \<open>
  The schedule has the department and day dictionaries a write needs; and the schedule
  after a list of writes that all find them.
\<close>

definition present :: "schedule \<Rightarrow> nat \<times> nat \<times> nat \<times> nat \<Rightarrow> bool" where
  "present sched w =
     (case w of (dep, day, s, n) \<Rightarrow> \<exists>by_day by_slot. sched dep = Some by_day \<and> by_day day = Some by_slot)"

definition apply_writes :: "(nat \<times> nat \<times> nat \<times> nat) list \<Rightarrow> schedule \<Rightarrow> schedule" where
  "apply_writes ws sched =
     (\<lambda>dep. map_option (\<lambda>by_day.
        (\<lambda>day. map_option (\<lambda>by_slot.
           (\<lambda>s. case last_write (dep, day, s) ws of
                  Some n \<Rightarrow> Some (Some n)
                | None \<Rightarrow> by_slot s)) (by_day day))) (sched dep))"

section \<open>Rosters\<close>

text \<open>
  A roster is the list of worked keys.  Its solution makes exactly the variables of these
  keys true.
\<close>

definition roster_solution :: "(key \<rightharpoonup> var) \<Rightarrow> key list \<Rightarrow> var \<Rightarrow> bool" where
  "roster_solution shifts A v = list_ex (\<lambda>k. shifts k = Some v) A"

text \<open>
  A test on the roster itself that is enough for its solution to satisfy the built model:
  the keys are legal; each (department, day) has as many worked keys as the day has
  slots; no nurse has two keys on one day, nor two weekend keys; every nurse's number
  of keys is in the fairness band; and in the last department no nurse has two keys
  one or two days apart, the earlier one before day 5.
\<close>

definition roster_check :: "config \<Rightarrow> key list \<Rightarrow> bool" where
  "roster_check cfg A =
     (list_all (\<lambda>(dep, n, day, s).
         dep < num_departments cfg \<and> n < num_nurses cfg \<and> day < num_days \<and> s < num_shifts day) A \<and>
      list_all (\<lambda>dep.
         list_all (\<lambda>day.
           length (filter (\<lambda>(d, n, dy, s). d = dep \<and> dy = day) A) = num_shifts day)
           [0..<num_days]) [0..<num_departments cfg] \<and>
      distinct (map (\<lambda>(d, n, dy, s). (n, dy)) A) \<and>
      distinct (map (\<lambda>(d, n, dy, s). n) (filter (\<lambda>(d, n, dy, s). dy \<in> set weekends) A)) \<and>
      list_all (\<lambda>n.
         band_min cfg \<le> length (filter (\<lambda>(d, n', dy, s). n' = n) A) \<and>
         length (filter (\<lambda>(d, n', dy, s). n' = n) A) \<le> band_max cfg)
         [0..<num_nurses cfg] \<and>
      (let B = filter (\<lambda>(d, n, dy, s). d = num_departments cfg - 1) A in
         list_all (\<lambda>(d, n, dy, s).
           list_all (\<lambda>(d', n', dy', s').
             \<not> (n' = n \<and> dy < num_days - 2 \<and> dy < dy' \<and> dy' \<le> dy + 2)) B) B))"

text \<open>
  A roster can be given slot by slot: \<open>staff dep day s\<close> lists the nurses who work slot
  \<open>s\<close> of department \<open>dep\<close> on \<open>day\<close>.
\<close>

definition roster_of :: "nat \<Rightarrow> (nat \<Rightarrow> nat \<Rightarrow> nat \<Rightarrow> nat list) \<Rightarrow> key list" where
  "roster_of D staff =
     [(dep, n, day, s).
        dep \<leftarrow> [0..<D], day \<leftarrow> [0..<num_days], s \<leftarrow> [0..<num_shifts day], n \<leftarrow> staff dep day s]"

text \<open>
  Three rosters for the sizes of \<open>main\<close> (15 departments, 100 nurses).  In the base
  roster every slot has its own nurse: on a weekday nurse \<open>(day mod 3) * 30 + 2 * dep + s\<close>,
  on Saturday nurse \<open>85 + dep\<close>, on Sunday nurse \<open>70 + dep\<close>.  The crowded roster moves
  nurse 1 of department 0 on Monday from slot 1 to slot 0.  The restless roster lets nurse
  0 take Tuesday slot 0 of department 0 and nurse 30 take Thursday slot 0 in exchange.
\<close>

definition base_nurse :: "nat \<Rightarrow> nat \<Rightarrow> nat \<Rightarrow> nat" where
  "base_nurse dep day s =
     (if day < 5 then (day mod 3) * 30 + 2 * dep + s else if day = 5 then 85 + dep else 70 + dep)"

definition base_staff :: "nat \<Rightarrow> nat \<Rightarrow> nat \<Rightarrow> nat list" where
  "base_staff dep day s = [base_nurse dep day s]"

definition crowded_staff :: "nat \<Rightarrow> nat \<Rightarrow> nat \<Rightarrow> nat list" where
  "crowded_staff dep day s =
     (if dep = 0 \<and> day = 0 then (if s = 0 then [0, 1] else [])
      else [base_nurse dep day s])"

definition restless_staff :: "nat \<Rightarrow> nat \<Rightarrow> nat \<Rightarrow> nat list" where
  "restless_staff dep day s =
     (if dep = 0 \<and> day = 1 \<and> s = 0 then [0]
      else if dep = 0 \<and> day = 3 \<and> s = 0 then [30]
      else [base_nurse dep day s])"

definition base_roster :: "key list" where
  "base_roster = roster_of 15 base_staff"

definition crowded_roster :: "key list" where
  "crowded_roster = roster_of 15 crowded_staff"

definition restless_roster :: "key list" where
  "restless_roster = roster_of 15 restless_staff"

section \<open>Facts about variable creation\<close>

lemma num_shifts_cases: "num_shifts day = (if day < 5 then 2 else 1)"
  by (simp add: num_shifts_def weekdays_def num_weekday_shifts_def num_weekend_shifts_def)

lemma set_all_keys: "set (all_keys cfg) = legal cfg"
  by (force simp: all_keys_def legal_def)

lemma sum_num_shifts: "sum_list (map num_shifts [0..<num_days]) = 12"
  by (simp add: num_days_def num_shifts_cases upt_rec)

lemma length_all_keys: "length (all_keys cfg) = num_departments cfg * num_nurses cfg * 12"
  unfolding all_keys_def
  by (simp add: length_concat comp_def sum_num_shifts sum_list_triv del: upt.simps)

lemma distinct_concat_map:
  assumes "distinct xs"
    and "\<And>x. x \<in> set xs \<Longrightarrow> distinct (f x)"
    and "\<And>x y. x \<in> set xs \<Longrightarrow> y \<in> set xs \<Longrightarrow> x \<noteq> y \<Longrightarrow> set (f x) \<inter> set (f y) = {}"
  shows "distinct (concat (map f xs))"
  using assms by (induction xs) auto

lemma distinct_all_keys: "distinct (all_keys cfg)"
  unfolding all_keys_def
  by (intro distinct_concat_map) (auto simp: distinct_map inj_on_def)

lemma card_legal: "card (legal cfg) = num_departments cfg * num_nurses cfg * 12"
  using distinct_card[OF distinct_all_keys, of cfg]
  by (simp add: set_all_keys length_all_keys)

lemma inj_on_fresh_update:
  fixes f :: "'a \<rightharpoonup> nat"
  assumes "inj_on f (dom f)" and "\<And>k v. f k = Some v \<Longrightarrow> v < c"
  shows "inj_on (f(k \<mapsto> c)) (dom (f(k \<mapsto> c)))"
proof (rule inj_onI)
  fix x y
  assume x: "x \<in> dom (f(k \<mapsto> c))" and y: "y \<in> dom (f(k \<mapsto> c))"
    and eq: "(f(k \<mapsto> c)) x = (f(k \<mapsto> c)) y"
  show "x = y"
  proof (cases "x = k")
    case True
    then show ?thesis using eq assms(2)[of y c] by (cases "y = k") auto
  next
    case False
    then show ?thesis
      using eq x y assms(2)[of x c] inj_onD[OF assms(1), of x y]
      by (cases "y = k") auto
  qed
qed

lemma create_step_inv: "fresh_inv st \<Longrightarrow> fresh_inv (create_step k st)"
proof (cases st)
  case (Pair m shifts)
  assume "fresh_inv st"
  then have inj: "inj_on shifts (dom shifts)"
    and lt: "\<And>k v. shifts k = Some v \<Longrightarrow> v < num_vars m"
    using Pair by (auto simp: fresh_inv_def)
  have "inj_on (shifts(k \<mapsto> num_vars m)) (dom (shifts(k \<mapsto> num_vars m)))"
    using inj lt by (rule inj_on_fresh_update)
  moreover have "\<forall>k' v. (shifts(k \<mapsto> num_vars m)) k' = Some v \<longrightarrow> v < Suc (num_vars m)"
    using lt by (auto simp: less_Suc_eq)
  ultimately show ?thesis
    using Pair by (simp add: fresh_inv_def new_bool_var_def)
qed

lemma fold_create_inv: "fresh_inv st \<Longrightarrow> fresh_inv (fold create_step ks st)"
  by (induction ks arbitrary: st) (simp_all add: create_step_inv)

lemma fold_create_dom: "dom (snd (fold create_step ks st)) = dom (snd st) \<union> set ks"
  by (induction ks arbitrary: st) (auto simp: new_bool_var_def split: prod.splits)

lemma fold_create_model:
  "fst (fold create_step ks st) = (fst st)\<lparr>num_vars := num_vars (fst st) + length ks\<rparr>"
  by (induction ks arbitrary: st) (auto simp: new_bool_var_def split: prod.splits)

lemma create_variables_dom: "dom (snd (create_variables cfg m)) = legal cfg"
  by (simp add: create_variables_def fold_create_dom set_all_keys)

lemma create_variables_model:
  "fst (create_variables cfg m) =
     m\<lparr>num_vars := num_vars m + num_departments cfg * num_nurses cfg * 12\<rparr>"
  by (simp add: create_variables_def fold_create_model length_all_keys)

lemma create_variables_inj:
  "inj_on (snd (create_variables cfg empty_model)) (legal cfg)"
proof -
  have "fresh_inv (empty_model, Map.empty)"
    by (simp add: fresh_inv_def)
  then have "fresh_inv (create_variables cfg empty_model)"
    unfolding create_variables_def by (rule fold_create_inv)
  then show ?thesis
    using create_variables_dom[of cfg empty_model]
    by (simp add: fresh_inv_def split: prod.splits)
qed

text \<open>
  C7.  The slot count is 2 on days 0 to 4 and 1 on days 5 and 6.  Variable creation fills
  the dictionary with exactly the keys \<open>(dep, n, day, s)\<close> whose department, nurse and day
  are in range and whose slot is below the day's slot count, gives distinct keys distinct
  variables, and creates departments times nurses times (sum of the slot counts of the
  seven days) variables in all.
\<close>

theorem variable_space:
  "map num_shifts [0..<7] = [2, 2, 2, 2, 2, 1, 1] \<and>
   (case create_variables cfg empty_model of
      (m, shifts) \<Rightarrow>
        dom shifts =
          {(dep, n, day, s).
             dep < num_departments cfg \<and> n < num_nurses cfg \<and> day < 7 \<and> s < num_shifts day} \<and>
        inj_on shifts (dom shifts) \<and>
        card (dom shifts) = num_departments cfg * num_nurses cfg * sum_list (map num_shifts [0..<7]) \<and>
        num_vars m = num_departments cfg * num_nurses cfg * sum_list (map num_shifts [0..<7]))"
proof -
  obtain m shifts where cv: "create_variables cfg empty_model = (m, shifts)"
    by (cases "create_variables cfg empty_model")
  have d: "dom shifts = legal cfg"
    using create_variables_dom[of cfg empty_model] cv by simp
  have i: "inj_on shifts (dom shifts)"
    using create_variables_inj[of cfg] cv d by simp
  have n: "num_vars m = num_departments cfg * num_nurses cfg * 12"
    using create_variables_model[of cfg empty_model] cv by (simp add: empty_model_def)
  have s: "sum_list (map num_shifts [0..<7]) = 12" "map num_shifts [0..<7] = [2, 2, 2, 2, 2, 1, 1]"
    by (simp_all add: num_shifts_cases upt_rec)
  show ?thesis
    using d i n s card_legal[of cfg] by (simp add: cv legal_def num_days_def)
qed

theorem variable_space_witness:
  "(case create_variables main_config empty_model of
      (m, shifts) \<Rightarrow>
        dom shifts = {(dep, n, day, s). dep < 15 \<and> n < 100 \<and> day < 7 \<and> s < num_shifts day} \<and>
        inj_on shifts (dom shifts) \<and> card (dom shifts) = 18000 \<and> num_vars m = 18000)"
  using variable_space[of main_config]
  by (simp add: main_config_def num_shifts_cases upt_rec split: prod.splits)

section \<open>Facts about loops and lookups\<close>

lemma getitems_ok:
  "set ks \<subseteq> dom shifts \<Longrightarrow> getitems shifts ks = Inr (map (\<lambda>k. the (shifts k)) ks)"
  by (induction ks) (auto simp: getitem_def)

lemma adds_Nil [simp]: "adds [] m = m"
  by (simp add: adds_def)

lemma adds_adds [simp]: "adds cs2 (adds cs1 m) = adds (cs1 @ cs2) m"
  by (simp add: adds_def)

lemma add_eq_adds: "add c m = adds [c] m"
  by (simp add: add_def adds_def)

lemma add_sum_ok:
  "set ks \<subseteq> dom shifts \<Longrightarrow> add_sum shifts ks c b m = Inr (adds [key_constraint shifts ks c b] m)"
  by (simp add: add_sum_def getitems_ok key_constraint_def add_eq_adds)

lemma for_each_adds:
  assumes "\<And>x m. x \<in> set xs \<Longrightarrow> body x m = Inr (adds (g x) m)"
  shows "for_each xs body m = Inr (adds (concat (map g xs)) m)"
  using assms by (induction xs arbitrary: m) simp_all

lemma for_each_adds_map:
  assumes "\<And>x m. x \<in> set xs \<Longrightarrow> body x m = Inr (adds [g x] m)"
  shows "for_each xs body m = Inr (adds (map g xs) m)"
  using for_each_adds[of xs body "\<lambda>x. [g x]" m] assms by simp

lemma coverage_keys_legal:
  "dep < num_departments cfg \<Longrightarrow> day < num_days \<Longrightarrow> set (coverage_keys cfg dep day) \<subseteq> legal cfg"
  by (auto simp: coverage_keys_def legal_def)

lemma day_keys_legal:
  "n < num_nurses cfg \<Longrightarrow> day < num_days \<Longrightarrow> set (day_keys cfg n day) \<subseteq> legal cfg"
  by (auto simp: day_keys_def legal_def)

lemma weekend_keys_legal:
  "n < num_nurses cfg \<Longrightarrow> set (weekend_keys cfg n) \<subseteq> legal cfg"
  by (auto simp: weekend_keys_def legal_def weekends_def num_days_def num_shifts_cases
      num_weekend_shifts_def)

lemma shifts_worked_legal:
  "n < num_nurses cfg \<Longrightarrow> set (shifts_worked cfg n) \<subseteq> legal cfg"
  by (auto simp: shifts_worked_def legal_def)

lemma add_coverage_ok:
  assumes "legal cfg \<subseteq> dom shifts"
  shows "add_coverage cfg shifts m = Inr (adds (coverage_cs cfg shifts) m)"
  unfolding add_coverage_def coverage_cs_def
  apply (rule for_each_adds)
  apply (rule for_each_adds_map)
  apply (rule add_sum_ok)
  using assms coverage_keys_legal by fastforce

lemma add_single_department_ok:
  assumes "legal cfg \<subseteq> dom shifts"
  shows "add_single_department cfg shifts m = Inr (adds (single_department_cs cfg shifts) m)"
  unfolding add_single_department_def single_department_cs_def
  apply (rule for_each_adds)
  apply (rule for_each_adds_map)
  apply (rule add_sum_ok)
  using assms day_keys_legal by fastforce

lemma add_weekend_ok:
  assumes "legal cfg \<subseteq> dom shifts"
  shows "add_weekend cfg shifts m = Inr (adds (weekend_cs cfg shifts) m)"
  unfolding add_weekend_def weekend_cs_def
  apply (rule for_each_adds_map)
  apply (rule add_sum_ok)
  using assms weekend_keys_legal by fastforce

lemma add_fairness_ok:
  assumes "legal cfg \<subseteq> dom shifts" and "0 < num_nurses cfg"
  shows "add_fairness cfg shifts m = Inr (adds (fairness_cs cfg shifts) m)"
proof -
  have mn: "min_shifts_per_nurse cfg = Inr (band_min cfg)"
    using assms(2) by (simp add: min_shifts_per_nurse_def floordiv_def band_min_def)
  have mx: "max_shifts_per_nurse cfg = Inr (band_max cfg)"
    by (simp add: max_shifts_per_nurse_def mn band_max_def)
  have "for_each [0..<num_nurses cfg] (\<lambda>n m1.
                 case getitems shifts (shifts_worked cfg n) of
                   Inl e \<Rightarrow> Inl e
                 | Inr vs \<Rightarrow> Inr (add (Constraint vs Le (int (band_max cfg))) (add (Constraint vs Ge (int (band_min cfg))) m1)))
                 m = Inr (adds (fairness_cs cfg shifts) m)"
    unfolding fairness_cs_def
  proof (rule for_each_adds)
    fix n m1
    assume "n \<in> set [0..<num_nurses cfg]"
    then have "set (shifts_worked cfg n) \<subseteq> dom shifts"
      using assms(1) shifts_worked_legal[of n cfg] by auto
    then show "(case getitems shifts (shifts_worked cfg n) of
                   Inl e \<Rightarrow> Inl e
                 | Inr vs \<Rightarrow> Inr (add (Constraint vs Le (int (band_max cfg))) (add (Constraint vs Ge (int (band_min cfg))) m1))) =
        Inr (adds [key_constraint shifts (shifts_worked cfg n) Ge (int (band_min cfg)),
        key_constraint shifts (shifts_worked cfg n) Le (int (band_max cfg))] m1)"
      by (simp add: getitems_ok key_constraint_def add_eq_adds)
  qed
  then show ?thesis
    by (simp add: add_fairness_def mn mx)
qed

lemma add_consecutive_ok:
  assumes "legal cfg \<subseteq> dom shifts" and "dep < num_departments cfg"
  shows "add_consecutive cfg (Some dep) shifts m = Inr (adds (consecutive_cs cfg shifts dep) m)"
  unfolding add_consecutive_def consecutive_cs_def
proof (rule for_each_adds, rule for_each_adds_map)
  fix n day m
  assume n: "n \<in> set [0..<num_nurses cfg]" and day: "day \<in> set weekdays"
  have "set [(dep, n, day, 0), (dep, n, day, 1)] \<subseteq> legal cfg"
    using n day assms(2) by (auto simp: legal_def weekdays_def num_days_def num_shifts_cases)
  then have "set [(dep, n, day, 0), (dep, n, day, Suc 0)] \<subseteq> dom shifts"
    using assms(1) by auto
  then show "for_each [0..<num_weekday_shifts]
          (\<lambda>s m. if s < num_weekday_shifts - 1
                 then case Some dep of None \<Rightarrow> Inl UnboundLocalError
                      | Some dep \<Rightarrow> add_sum shifts [(dep, n, day, s), (dep, n, day, s + 1)] Le 2 m
                 else Inr m) m =
        Inr (adds [key_constraint shifts [(dep, n, day, 0), (dep, n, day, 1)] Le 2] m)"
    by (simp add: num_weekday_shifts_def upt_rec add_sum_ok)
qed

lemma legalI:
  "dep < num_departments cfg \<Longrightarrow> n < num_nurses cfg \<Longrightarrow> day < num_days \<Longrightarrow> s < num_shifts day
    \<Longrightarrow> (dep, n, day, s) \<in> legal cfg"
  by (simp add: legal_def)

lemma next_slots_legal:
  "(nd, ns) \<in> set (next_slots day) \<Longrightarrow> nd < num_days \<and> ns < num_shifts nd"
  by (auto simp: next_slots_def)

lemma rest_body_ok:
  assumes sub: "legal cfg \<subseteq> dom shifts" and dep: "dep < num_departments cfg"
    and n: "n < num_nurses cfg" and day: "day < num_days" and s: "s < num_shifts day"
  shows "(case Some dep of
               None \<Rightarrow> Inl UnboundLocalError
             | Some dep \<Rightarrow>
                 if shifts (dep, n, day, s) \<noteq> None then
                   (case for_each (next_slots day) (\<lambda>(next_day, next_s) m1.
                           if shifts (dep, n, next_day, next_s) \<noteq> None then
                             add_sum shifts [(dep, n, day, s), (dep, n, next_day, next_s)] Le 1 m1
                           else Inr m1) m of
                      Inl e \<Rightarrow> Inl e
                    | Inr m' \<Rightarrow>
                        if s < num_shifts day - 1 then
                          for_each (next_slots day) (\<lambda>(next_day, next_s) m2.
                            if shifts (dep, n, next_day, next_s) \<noteq> None then
                              add_sum shifts
                                [(dep, n, day, s), (dep, n, day, s + 1), (dep, n, next_day, next_s)]
                                Le 2 m2
                            else Inr m2) m'
                        else Inr m')
                 else Inr m) = Inr (adds (rest_after shifts dep n day s) m)"
proof -
  have k: "(dep, n, day, s) \<in> dom shifts"
    using sub legalI[OF dep n day s] by blast
  have nk: "(dep, n, nd, ns) \<in> dom shifts" if "(nd, ns) \<in> set (next_slots day)" for nd ns
    using sub legalI[OF dep n] next_slots_legal[OF that] by blast
  have pairs: "for_each (next_slots day) (\<lambda>(next_day, next_s) m1.
                 if shifts (dep, n, next_day, next_s) \<noteq> None then
                   add_sum shifts [(dep, n, day, s), (dep, n, next_day, next_s)] Le 1 m1
                 else Inr m1) m0 =
        Inr (adds (map (\<lambda>(next_day, next_s).
            key_constraint shifts [(dep, n, day, s), (dep, n, next_day, next_s)] Le 1)
          (next_slots day)) m0)" for m0
    apply (rule for_each_adds_map)
    using k nk by (auto intro!: add_sum_ok)
  have triples: "for_each (next_slots day) (\<lambda>(next_day, next_s) m2.
                 if shifts (dep, n, next_day, next_s) \<noteq> None then
                   add_sum shifts
                     [(dep, n, day, s), (dep, n, day, s + 1), (dep, n, next_day, next_s)] Le 2 m2
                 else Inr m2) m0 =
        Inr (adds (map (\<lambda>(next_day, next_s).
            key_constraint shifts
              [(dep, n, day, s), (dep, n, day, s + 1), (dep, n, next_day, next_s)] Le 2)
          (next_slots day)) m0)" if "s < num_shifts day - 1" for m0
  proof -
    have "s + 1 < num_shifts day"
      using that by simp
    then have "(dep, n, day, s + 1) \<in> dom shifts"
      using sub legalI[OF dep n day] by blast
    then show ?thesis
      apply -
      apply (rule for_each_adds_map)
      using k nk by (auto intro!: add_sum_ok)
  qed
  show ?thesis
    using k by (auto simp: pairs triples rest_after_def simp del: not_None_eq)
qed

lemma add_rest_ok:
  assumes "legal cfg \<subseteq> dom shifts" and "dep < num_departments cfg"
  shows "add_rest cfg (Some dep) shifts m = Inr (adds (rest_cs cfg shifts dep) m)"
  unfolding add_rest_def rest_cs_def
proof (rule for_each_adds, rule for_each_adds)
  fix n day m
  assume n: "n \<in> set [0..<num_nurses cfg]" and day: "day \<in> set [0..<num_days]"
  have "for_each [0..<num_shifts day] (\<lambda>s m.
             case Some dep of
               None \<Rightarrow> Inl UnboundLocalError
             | Some dep \<Rightarrow>
                 if shifts (dep, n, day, s) \<noteq> None then
                   (case for_each (next_slots day) (\<lambda>(next_day, next_s) m1.
                           if shifts (dep, n, next_day, next_s) \<noteq> None then
                             add_sum shifts [(dep, n, day, s), (dep, n, next_day, next_s)] Le 1 m1
                           else Inr m1) m of
                      Inl e \<Rightarrow> Inl e
                    | Inr m' \<Rightarrow>
                        if s < num_shifts day - 1 then
                          for_each (next_slots day) (\<lambda>(next_day, next_s) m2.
                            if shifts (dep, n, next_day, next_s) \<noteq> None then
                              add_sum shifts
                                [(dep, n, day, s), (dep, n, day, s + 1), (dep, n, next_day, next_s)]
                                Le 2 m2
                            else Inr m2) m'
                        else Inr m')
                 else Inr m) m
     = Inr (adds (concat (map (\<lambda>s. rest_after shifts dep n day s) [0..<num_shifts day])) m)"
    apply (rule for_each_adds)
    apply (rule rest_body_ok)
    using assms n day by auto
  then show "(if day < num_days - 2 then
           for_each [0..<num_shifts day] (\<lambda>s m.
             case Some dep of
               None \<Rightarrow> Inl UnboundLocalError
             | Some dep \<Rightarrow>
                 if shifts (dep, n, day, s) \<noteq> None then
                   (case for_each (next_slots day) (\<lambda>(next_day, next_s) m1.
                           if shifts (dep, n, next_day, next_s) \<noteq> None then
                             add_sum shifts [(dep, n, day, s), (dep, n, next_day, next_s)] Le 1 m1
                           else Inr m1) m of
                      Inl e \<Rightarrow> Inl e
                    | Inr m' \<Rightarrow>
                        if s < num_shifts day - 1 then
                          for_each (next_slots day) (\<lambda>(next_day, next_s) m2.
                            if shifts (dep, n, next_day, next_s) \<noteq> None then
                              add_sum shifts
                                [(dep, n, day, s), (dep, n, day, s + 1), (dep, n, next_day, next_s)]
                                Le 2 m2
                            else Inr m2) m'
                        else Inr m')
                 else Inr m) m
         else Inr m) = Inr (adds (if day < num_days - 2 then
           concat (map (\<lambda>s. rest_after shifts dep n day s) [0..<num_shifts day])
         else []) m)"
    by simp
qed

lemma loop_var_after_upt: "0 < n \<Longrightarrow> loop_var_after [0..<n] = Some (n - 1)"
  by (simp add: loop_var_after_def last_upt)

lemma build_model_ok:
  assumes "0 < num_departments cfg" and "0 < num_nurses cfg"
    and cv: "create_variables cfg empty_model = (m, shifts)"
  shows "build_model cfg = Inr (adds (all_cs cfg shifts) m, shifts)"
proof -
  have sub: "legal cfg \<subseteq> dom shifts"
    using create_variables_dom[of cfg empty_model] cv by simp
  define d where "d = num_departments cfg - 1"
  have dep: "d < num_departments cfg"
    using assms(1) by (simp add: d_def)
  have lv: "loop_var_after [0..<num_departments cfg] = Some d"
    using assms(1) by (simp add: loop_var_after_upt d_def)
  have "build_model cfg =
      Inr (adds (coverage_cs cfg shifts @ consecutive_cs cfg shifts d @ rest_cs cfg shifts d @
        single_department_cs cfg shifts @ weekend_cs cfg shifts @ fairness_cs cfg shifts) m, shifts)"
    using assms(2)
    by (simp add: build_model_def cv lv add_coverage_ok[OF sub]
        add_consecutive_ok[OF sub dep] add_rest_ok[OF sub dep] add_single_department_ok[OF sub]
        add_weekend_ok[OF sub] add_fairness_ok[OF sub])
  then show ?thesis
    by (simp add: all_cs_def d_def)
qed

lemma build_model_no_nurses:
  assumes "num_nurses cfg = 0"
  shows "build_model cfg = Inl ZeroDivisionError"
proof -
  obtain m shifts where cv: "create_variables cfg empty_model = (m, shifts)"
    by (cases "create_variables cfg empty_model")
  have sub: "legal cfg \<subseteq> dom shifts"
    using create_variables_dom[of cfg empty_model] cv by simp
  have f: "add_fairness cfg shifts m' = Inl ZeroDivisionError" for m'
    using assms by (simp add: add_fairness_def min_shifts_per_nurse_def floordiv_def)
  show ?thesis
    using assms
    by (simp add: build_model_def cv add_coverage_ok[OF sub] add_consecutive_def add_rest_def
        add_single_department_def add_weekend_def f)
qed

lemma build_model_no_departments:
  assumes "num_departments cfg = 0" and "0 < num_nurses cfg"
  shows "build_model cfg = Inl UnboundLocalError"
proof -
  obtain m shifts where cv: "create_variables cfg empty_model = (m, shifts)"
    by (cases "create_variables cfg empty_model")
  have n: "[0..<num_nurses cfg] = 0 # [1..<num_nurses cfg]"
    using assms(2) by (simp add: upt_rec)
  have wd: "weekdays = 0 # [1..<5]" and ws: "[0..<num_weekday_shifts] = [0, 1]"
    by (simp_all add: weekdays_def num_weekday_shifts_def upt_rec)
  have "add_consecutive cfg None shifts m' = Inl UnboundLocalError" for m'
    by (simp add: add_consecutive_def n wd ws) (simp add: num_weekday_shifts_def)
  then show ?thesis
    using assms(1)
    by (simp add: build_model_def cv add_coverage_def loop_var_after_def)
qed

lemma build_model_success:
  assumes "build_model cfg = Inr (m', shifts)"
  shows "0 < num_departments cfg \<and> 0 < num_nurses cfg \<and>
         shifts = snd (create_variables cfg empty_model) \<and>
         m' = adds (all_cs cfg shifts) (fst (create_variables cfg empty_model))"
proof -
  have n: "0 < num_nurses cfg"
    using assms build_model_no_nurses[of cfg] by (cases "num_nurses cfg = 0") auto
  have d: "0 < num_departments cfg"
    using assms n build_model_no_departments[of cfg] by (cases "num_departments cfg = 0") auto
  have "build_model cfg = Inr (adds (all_cs cfg (snd (create_variables cfg empty_model)))
      (fst (create_variables cfg empty_model)), snd (create_variables cfg empty_model))"
    by (rule build_model_ok[OF d n]) simp
  then show ?thesis
    using assms n d by auto
qed

section \<open>The consecutive-shift rule\<close>

lemma shifts_of_dom: "dom (shifts_of cfg) = legal cfg"
  by (simp add: shifts_of_def create_variables_dom)

lemma shifts_of_inj: "inj_on (shifts_of cfg) (legal cfg)"
  by (simp add: shifts_of_def create_variables_inj)

lemma var_of_inj:
  assumes "k \<in> legal cfg" and "k' \<in> legal cfg" and "var_of cfg k = var_of cfg k'"
  shows "k = k'"
proof -
  obtain v v' where "shifts_of cfg k = Some v" "shifts_of cfg k' = Some v'"
    using assms(1,2) shifts_of_dom[of cfg] by blast
  then have "shifts_of cfg k = shifts_of cfg k'"
    using assms(3) by (simp add: var_of_def)
  then show ?thesis
    using shifts_of_inj[of cfg] assms(1,2) by (auto dest: inj_onD)
qed

lemma holds_le_length: "int (length vs) \<le> b \<Longrightarrow> holds sol (Constraint vs Le b)"
proof -
  have "lhs sol vs \<le> int (length vs)"
    unfolding lhs_def by (induction vs) auto
  then show "int (length vs) \<le> b \<Longrightarrow> holds sol (Constraint vs Le b)"
    by simp
qed

text \<open>
  C3.  With at least one department, the rule "allow up to 2 consecutive shifts" adds, for
  each nurse and weekday, one bound "slot 0 plus slot 1 is at most 2", and every one of
  them is over the variables of the last department only (the value \<open>dep\<close> kept from
  the earlier loop): no variable of another department occurs in them.  Each bound holds
  under every assignment of the variables.
\<close>

theorem consecutive_rule:
  assumes "0 < num_departments cfg"
  shows "add_consecutive cfg (loop_var_after [0..<num_departments cfg]) (shifts_of cfg) m =
           Inr (m\<lparr>constraints := constraints m @
                  [Constraint [var_of cfg (num_departments cfg - 1, n, day, 0),
                               var_of cfg (num_departments cfg - 1, n, day, 1)] Le 2.
                     n \<leftarrow> [0..<num_nurses cfg], day \<leftarrow> [0..<5]]\<rparr>) \<and>
         (\<forall>c \<in> set [Constraint [var_of cfg (num_departments cfg - 1, n, day, 0),
                               var_of cfg (num_departments cfg - 1, n, day, 1)] Le 2.
                     n \<leftarrow> [0..<num_nurses cfg], day \<leftarrow> [0..<5]].
            (\<forall>sol. holds sol c) \<and>
            (\<forall>dep n day s. (dep, n, day, s) \<in> legal cfg \<and> dep \<noteq> num_departments cfg - 1 \<longrightarrow>
               var_of cfg (dep, n, day, s) \<notin> set (c_terms c)))"
proof (intro conjI ballI allI impI)
  have sub: "legal cfg \<subseteq> dom (shifts_of cfg)"
    by (simp add: shifts_of_dom)
  have dep: "num_departments cfg - 1 < num_departments cfg"
    using assms by simp
  show "add_consecutive cfg (loop_var_after [0..<num_departments cfg]) (shifts_of cfg) m =
           Inr (m\<lparr>constraints := constraints m @
                  [Constraint [var_of cfg (num_departments cfg - 1, n, day, 0),
                               var_of cfg (num_departments cfg - 1, n, day, 1)] Le 2.
                     n \<leftarrow> [0..<num_nurses cfg], day \<leftarrow> [0..<5]]\<rparr>)"
    using add_consecutive_ok[OF sub dep, of m] assms
    by (simp add: loop_var_after_upt consecutive_cs_def adds_def key_constraint_def var_of_def
        weekdays_def)
next
  fix c sol
  assume "c \<in> set [Constraint [var_of cfg (num_departments cfg - 1, n, day, 0),
                               var_of cfg (num_departments cfg - 1, n, day, 1)] Le 2.
                     n \<leftarrow> [0..<num_nurses cfg], day \<leftarrow> [0..<5]]"
  then show "holds sol c"
    by (auto intro!: holds_le_length)
next
  fix c dep n day s
  assume c: "c \<in> set [Constraint [var_of cfg (num_departments cfg - 1, n, day, 0),
                               var_of cfg (num_departments cfg - 1, n, day, 1)] Le 2.
                     n \<leftarrow> [0..<num_nurses cfg], day \<leftarrow> [0..<5]]"
    and k: "(dep, n, day, s) \<in> legal cfg \<and> dep \<noteq> num_departments cfg - 1"
  from c obtain n' day' where n': "n' < num_nurses cfg" and day': "day' < 5"
    and ceq: "c = Constraint [var_of cfg (num_departments cfg - 1, n', day', 0),
                               var_of cfg (num_departments cfg - 1, n', day', 1)] Le 2"
    by auto
  have l0: "(num_departments cfg - 1, n', day', 0) \<in> legal cfg"
    and l1: "(num_departments cfg - 1, n', day', 1) \<in> legal cfg"
    using assms n' day' by (simp_all add: legal_def num_days_def num_shifts_cases)
  show "var_of cfg (dep, n, day, s) \<notin> set (c_terms c)"
    using var_of_inj[OF _ l0, of "(dep, n, day, s)"] var_of_inj[OF _ l1, of "(dep, n, day, s)"] k
    by (auto simp: ceq)
qed

theorem consecutive_rule_witness:
  "0 < num_departments main_config \<and>
   add_consecutive main_config (loop_var_after [0..<num_departments main_config])
       (shifts_of main_config) empty_model =
     Inr (empty_model\<lparr>constraints :=
            [Constraint [var_of main_config (14, n, day, 0), var_of main_config (14, n, day, 1)] Le 2.
               n \<leftarrow> [0..<100], day \<leftarrow> [0..<5]]\<rparr>) \<and>
   var_of main_config (0, 0, 0, 0) \<notin>
     set (c_terms (Constraint [var_of main_config (14, 0, 0, 0), var_of main_config (14, 0, 0, 1)] Le 2))"
proof -
  have d: "0 < num_departments main_config"
    by (simp add: main_config_def)
  have c: "Constraint [var_of main_config (14, 0, 0, 0), var_of main_config (14, 0, 0, 1)] Le 2 \<in>
      set [Constraint [var_of main_config (num_departments main_config - 1, n, day, 0),
                       var_of main_config (num_departments main_config - 1, n, day, 1)] Le 2.
             n \<leftarrow> [0..<num_nurses main_config], day \<leftarrow> [0..<5]]"
    by (simp add: main_config_def) (rule bexI[of _ 0], simp_all)
  have l: "(0, 0, 0, 0) \<in> legal main_config \<and> 0 \<noteq> num_departments main_config - 1"
    by (simp add: legal_def main_config_def num_days_def num_shifts_cases)
  show ?thesis
    using consecutive_rule[OF d, of empty_model] c l
    by (simp add: main_config_def empty_model_def)
qed

section \<open>Solutions of the built model\<close>

lemma lhs_keys:
  "set ks \<subseteq> dom shifts \<Longrightarrow> lhs sol (map (\<lambda>k. the (shifts k)) ks) = int (worked shifts sol ks)"
  by (induction ks) (auto simp: lhs_def worked_def assigned_def)

lemma holds_key_constraint:
  assumes "set ks \<subseteq> dom shifts"
  shows "holds sol (key_constraint shifts ks Eq b) = (int (worked shifts sol ks) = b)"
    and "holds sol (key_constraint shifts ks Le b) = (int (worked shifts sol ks) \<le> b)"
    and "holds sol (key_constraint shifts ks Ge b) = (int (worked shifts sol ks) \<ge> b)"
  using lhs_keys[OF assms, of sol] by (simp_all add: key_constraint_def)

lemma getitems_key_constraint:
  "set ks \<subseteq> dom shifts \<Longrightarrow>
     \<exists>vs. getitems shifts ks = Inr vs \<and> Constraint vs c b = key_constraint shifts ks c b"
  by (simp add: getitems_ok key_constraint_def)

lemma satisfies_adds:
  "satisfies (adds cs m) sol = (satisfies m sol \<and> list_all (holds sol) cs)"
  by (simp add: satisfies_def adds_def)

lemma create_variables_constraints:
  "constraints (fst (create_variables cfg empty_model)) = []"
  by (simp add: create_variables_model empty_model_def)

text \<open>What a successful build returns.\<close>

lemma build_model_result:
  assumes "build_model cfg = Inr (m, shifts)"
  shows "0 < num_departments cfg" and "0 < num_nurses cfg" and "shifts = shifts_of cfg"
    and "dom shifts = legal cfg" and "constraints m = all_cs cfg shifts"
    and "satisfies m sol = list_all (holds sol) (all_cs cfg shifts)"
  using build_model_success[OF assms] create_variables_constraints[of cfg]
  by (simp_all add: shifts_of_def create_variables_dom adds_def satisfies_def)

lemma distinct_filter_le1:
  assumes "distinct xs" and "length (filter P xs) \<le> 1"
    and "x \<in> set xs" and "y \<in> set xs" and "P x" and "P y"
  shows "x = y"
proof (rule ccontr)
  assume "x \<noteq> y"
  then have "card {x, y} = 2" by simp
  moreover have "{x, y} \<subseteq> set (filter P xs)" using assms by simp
  then have "card {x, y} \<le> card (set (filter P xs))"
    by (intro card_mono) simp_all
  moreover have "card (set (filter P xs)) \<le> length (filter P xs)"
    by (rule card_length)
  ultimately show False using assms(2) by simp
qed

lemma assigned_dom: "assigned shifts sol k \<Longrightarrow> k \<in> dom shifts"
  by (auto simp: assigned_def split: option.splits)

lemma distinct_day_keys: "distinct (day_keys cfg n day)"
  unfolding day_keys_def by (intro distinct_concat_map) (auto simp: distinct_map inj_on_def)

lemma weekends_list: "weekends = [5, 6]"
  by (simp add: weekends_def upt_rec)

lemma distinct_weekend_keys: "distinct (weekend_keys cfg n)"
  unfolding weekend_keys_def weekends_list
  by (intro distinct_concat_map) (auto simp: distinct_map inj_on_def)

lemma set_day_keys:
  "set (day_keys cfg n day) = {(dep, n', day', s). dep < num_departments cfg \<and> n' = n \<and> day' = day \<and> s < num_shifts day}"
  by (auto simp: day_keys_def)

lemma set_weekend_keys:
  "set (weekend_keys cfg n) = {(dep, n', day, s). dep < num_departments cfg \<and> n' = n \<and> (day = 5 \<or> day = 6) \<and> s = 0}"
  by (auto simp: weekend_keys_def weekends_list num_weekend_shifts_def)

lemma single_department_mem:
  "n < num_nurses cfg \<Longrightarrow> day < num_days \<Longrightarrow>
     key_constraint shifts (day_keys cfg n day) Le 1 \<in> set (all_cs cfg shifts)"
proof -
  assume "n < num_nurses cfg" "day < num_days"
  then have "key_constraint shifts (day_keys cfg n day) Le 1 \<in> set (single_department_cs cfg shifts)"
    by (force simp: single_department_cs_def)
  then show ?thesis by (simp add: all_cs_def)
qed

lemma weekend_mem:
  "n < num_nurses cfg \<Longrightarrow> key_constraint shifts (weekend_keys cfg n) Le 1 \<in> set (all_cs cfg shifts)"
proof -
  assume "n < num_nurses cfg"
  then have "key_constraint shifts (weekend_keys cfg n) Le 1 \<in> set (weekend_cs cfg shifts)"
    by (force simp: weekend_cs_def)
  then show ?thesis by (simp add: all_cs_def)
qed

lemma fairness_mem:
  assumes "n < num_nurses cfg"
  shows "key_constraint shifts (shifts_worked cfg n) Ge (int (band_min cfg)) \<in> set (all_cs cfg shifts)"
    and "key_constraint shifts (shifts_worked cfg n) Le (int (band_max cfg)) \<in> set (all_cs cfg shifts)"
proof -
  have "key_constraint shifts (shifts_worked cfg n) Ge (int (band_min cfg)) \<in> set (fairness_cs cfg shifts)"
    and "key_constraint shifts (shifts_worked cfg n) Le (int (band_max cfg)) \<in> set (fairness_cs cfg shifts)"
    using assms by (force simp: fairness_cs_def)+
  then show "key_constraint shifts (shifts_worked cfg n) Ge (int (band_min cfg)) \<in> set (all_cs cfg shifts)"
    and "key_constraint shifts (shifts_worked cfg n) Le (int (band_max cfg)) \<in> set (all_cs cfg shifts)"
    by (simp_all add: all_cs_def)
qed

lemma coverage_mem:
  "dep < num_departments cfg \<Longrightarrow> day < num_days \<Longrightarrow>
     key_constraint shifts (coverage_keys cfg dep day) Eq (int (num_shifts day)) \<in> set (all_cs cfg shifts)"
proof -
  assume "dep < num_departments cfg" "day < num_days"
  then have "key_constraint shifts (coverage_keys cfg dep day) Eq (int (num_shifts day)) \<in>
      set (coverage_cs cfg shifts)"
    by (force simp: coverage_cs_def)
  then show ?thesis by (simp add: all_cs_def)
qed

text \<open>
  C5.  When the model is built, it holds for each nurse and each day the constraint "the
  sum of the nurse's variables over all departments and all of that day's slots is at
  most 1".  So in every solution the nurse works at most one of those keys: two worked
  (department, slot) pairs of one nurse on one day are the same pair.
\<close>

theorem single_department_per_day:
  assumes "build_model cfg = Inr (m, shifts)" and "satisfies m sol"
    and "n < num_nurses cfg" and "day < num_days"
  shows "(\<exists>vs. getitems shifts (day_keys cfg n day) = Inr vs \<and>
              Constraint vs Le 1 \<in> set (constraints m)) \<and>
         worked shifts sol (day_keys cfg n day) \<le> 1 \<and>
         (\<forall>dep s dep' s'.
            assigned shifts sol (dep, n, day, s) \<and> assigned shifts sol (dep', n, day, s') \<longrightarrow>
            dep = dep' \<and> s = s')"
proof -
  note r = build_model_result[OF assms(1)]
  have sub: "set (day_keys cfg n day) \<subseteq> dom shifts"
    using day_keys_legal[OF assms(3,4)] r(4) by simp
  have mem: "key_constraint shifts (day_keys cfg n day) Le 1 \<in> set (constraints m)"
    using single_department_mem[OF assms(3,4)] r(5) by simp
  then have "holds sol (key_constraint shifts (day_keys cfg n day) Le 1)"
    using assms(2) by (simp add: satisfies_def list_all_iff)
  then have le: "worked shifts sol (day_keys cfg n day) \<le> 1"
    by (simp add: holds_key_constraint[OF sub])
  have uniq: "dep = dep' \<and> s = s'"
    if a: "assigned shifts sol (dep, n, day, s)" and b: "assigned shifts sol (dep', n, day, s')"
    for dep s dep' s'
  proof -
    have "(dep, n, day, s) \<in> legal cfg" "(dep', n, day, s') \<in> legal cfg"
      using assigned_dom[OF a] assigned_dom[OF b] r(4) by simp_all
    then have in1: "(dep, n, day, s) \<in> set (day_keys cfg n day)"
      and in2: "(dep', n, day, s') \<in> set (day_keys cfg n day)"
      by (simp_all add: set_day_keys legal_def)
    have "(dep, n, day, s) = (dep', n, day, s')"
      by (rule distinct_filter_le1[OF distinct_day_keys _ in1 in2 a b])
         (use le in \<open>simp add: worked_def\<close>)
    then show ?thesis by simp
  qed
  show ?thesis
    using getitems_key_constraint[OF sub, of Le 1] mem le uniq by auto
qed

text \<open>
  C6.  When the model is built, it holds for each nurse the constraint "the sum of the
  nurse's variables over both weekend days (5 and 6), all departments and the weekend
  slot is at most 1".  So in every solution no nurse works on both weekend days.
\<close>

theorem one_weekend_day:
  assumes "build_model cfg = Inr (m, shifts)" and "satisfies m sol" and "n < num_nurses cfg"
  shows "(\<exists>vs. getitems shifts (weekend_keys cfg n) = Inr vs \<and>
              Constraint vs Le 1 \<in> set (constraints m)) \<and>
         worked shifts sol (weekend_keys cfg n) \<le> 1 \<and>
         \<not> ((\<exists>dep s. assigned shifts sol (dep, n, 5, s)) \<and>
            (\<exists>dep s. assigned shifts sol (dep, n, 6, s)))"
proof -
  note r = build_model_result[OF assms(1)]
  have sub: "set (weekend_keys cfg n) \<subseteq> dom shifts"
    using weekend_keys_legal[OF assms(3)] r(4) by simp
  have mem: "key_constraint shifts (weekend_keys cfg n) Le 1 \<in> set (constraints m)"
    using weekend_mem[OF assms(3)] r(5) by simp
  then have "holds sol (key_constraint shifts (weekend_keys cfg n) Le 1)"
    using assms(2) by (simp add: satisfies_def list_all_iff)
  then have le: "worked shifts sol (weekend_keys cfg n) \<le> 1"
    by (simp add: holds_key_constraint[OF sub])
  have False
    if a: "assigned shifts sol (dep, n, 5, s)" and b: "assigned shifts sol (dep', n, 6, s')"
    for dep s dep' s'
  proof -
    have "(dep, n, 5, s) \<in> legal cfg" "(dep', n, 6, s') \<in> legal cfg"
      using assigned_dom[OF a] assigned_dom[OF b] r(4) by simp_all
    then have in1: "(dep, n, 5, s) \<in> set (weekend_keys cfg n)"
      and in2: "(dep', n, 6, s') \<in> set (weekend_keys cfg n)"
      by (simp_all add: set_weekend_keys legal_def num_shifts_cases)
    have "(dep, n, 5::nat, s) = (dep', n, 6::nat, s')"
      by (rule distinct_filter_le1[OF distinct_weekend_keys _ in1 in2 a b])
         (use le in \<open>simp add: worked_def\<close>)
    then show False by simp
  qed
  then show ?thesis
    using getitems_key_constraint[OF sub, of Le 1] mem le by auto
qed

text \<open>
  C4.  The total is departments times (weekday slots times 5 plus weekend slots times
  2); the minimum per nurse is the floor of the total divided by the nurse count; the
  maximum is the minimum plus 1 exactly when the remainder is not zero.  In every
  solution of the built model each nurse's number of worked keys, over every
  department, day and slot, lies between the minimum and the maximum.
\<close>

theorem fairness_band:
  assumes "build_model cfg = Inr (m, shifts)" and "satisfies m sol" and "n < num_nurses cfg"
  shows "total_shifts cfg = num_departments cfg * (num_weekday_shifts * 5 + num_weekend_shifts * 2) \<and>
         min_shifts_per_nurse cfg = Inr (total_shifts cfg div num_nurses cfg) \<and>
         max_shifts_per_nurse cfg =
           Inr (if total_shifts cfg mod num_nurses cfg \<noteq> 0
                then total_shifts cfg div num_nurses cfg + 1
                else total_shifts cfg div num_nurses cfg) \<and>
         (\<forall>mn mx. min_shifts_per_nurse cfg = Inr mn \<and> max_shifts_per_nurse cfg = Inr mx \<longrightarrow>
            mn \<le> worked shifts sol (shifts_worked cfg n) \<and>
            worked shifts sol (shifts_worked cfg n) \<le> mx)"
proof -
  note r = build_model_result[OF assms(1)]
  have sub: "set (shifts_worked cfg n) \<subseteq> dom shifts"
    using shifts_worked_legal[OF assms(3)] r(4) by simp
  have mn: "min_shifts_per_nurse cfg = Inr (band_min cfg)"
    using r(2) by (simp add: min_shifts_per_nurse_def floordiv_def band_min_def)
  have mx: "max_shifts_per_nurse cfg = Inr (band_max cfg)"
    by (simp add: max_shifts_per_nurse_def mn band_max_def)
  have "holds sol (key_constraint shifts (shifts_worked cfg n) Ge (int (band_min cfg)))"
    and "holds sol (key_constraint shifts (shifts_worked cfg n) Le (int (band_max cfg)))"
    using fairness_mem[OF assms(3), of shifts] assms(2) r(5)
    by (simp_all add: satisfies_def list_all_iff)
  then have "band_min cfg \<le> worked shifts sol (shifts_worked cfg n)"
    and "worked shifts sol (shifts_worked cfg n) \<le> band_max cfg"
    by (simp_all add: holds_key_constraint[OF sub])
  moreover have "total_shifts cfg =
      num_departments cfg * (num_weekday_shifts * 5 + num_weekend_shifts * 2)"
    by (simp add: total_shifts_def weekdays_def weekends_def)
  ultimately show ?thesis
    using mn mx by (simp add: band_min_def band_max_def)
qed

section \<open>Rosters that satisfy the built model\<close>

lemma assigned_roster:
  assumes "inj_on shifts (dom shifts)" and "k \<in> dom shifts"
  shows "assigned shifts (roster_solution shifts A) k = (k \<in> set A)"
proof -
  obtain v where v: "shifts k = Some v" using assms(2) by blast
  have "(\<exists>k' \<in> set A. shifts k' = Some v) = (k \<in> set A)"
  proof
    assume "\<exists>k' \<in> set A. shifts k' = Some v"
    then obtain k' where k': "k' \<in> set A" "shifts k' = Some v" by blast
    then have "k' = k"
      using inj_onD[OF assms(1), of k' k] v assms(2) by auto
    then show "k \<in> set A" using k' by simp
  next
    assume "k \<in> set A"
    then show "\<exists>k' \<in> set A. shifts k' = Some v" using v by blast
  qed
  then show ?thesis
    by (simp add: assigned_def v roster_solution_def list_ex_iff)
qed

lemma worked_roster:
  assumes "inj_on shifts (dom shifts)" and "set ks \<subseteq> dom shifts"
    and "distinct ks" and "distinct A"
  shows "worked shifts (roster_solution shifts A) ks = length (filter (\<lambda>a. a \<in> set ks) A)"
proof -
  have "filter (assigned shifts (roster_solution shifts A)) ks = filter (\<lambda>k. k \<in> set A) ks"
  proof (rule filter_cong)
    fix k assume "k \<in> set ks"
    then have "k \<in> dom shifts" using assms(2) by blast
    then show "assigned shifts (roster_solution shifts A) k = (k \<in> set A)"
      by (rule assigned_roster[OF assms(1)])
  qed simp
  then have "worked shifts (roster_solution shifts A) ks = length (filter (\<lambda>k. k \<in> set A) ks)"
    by (simp add: worked_def)
  also have "\<dots> = card ({k. k \<in> set A} \<inter> set ks)"
    by (rule distinct_length_filter[OF assms(3)])
  also have "\<dots> = card ({a. a \<in> set ks} \<inter> set A)"
    by (simp add: Int_commute)
  also have "\<dots> = length (filter (\<lambda>a. a \<in> set ks) A)"
    by (rule distinct_length_filter[OF assms(4), symmetric])
  finally show ?thesis .
qed

lemma worked_le_length: "worked shifts sol ks \<le> length ks"
  by (simp add: worked_def)

lemma distinct_map_filter_le1:
  "distinct (map f xs) \<Longrightarrow> length (filter (\<lambda>x. f x = y) xs) \<le> 1"
proof (induction xs)
  case Nil
  then show ?case by simp
next
  case (Cons x xs)
  show ?case
  proof (cases "f x = y")
    case True
    have "f x \<notin> f ` set xs"
      using Cons.prems by simp
    then have "\<forall>z \<in> set xs. f z \<noteq> y"
      using True by blast
    then have "filter (\<lambda>x. f x = y) xs = []"
      by (simp add: filter_empty_conv)
    then show ?thesis using True by simp
  next
    case False
    then show ?thesis using Cons by simp
  qed
qed

lemma distinct_coverage_keys: "distinct (coverage_keys cfg dep day)"
  unfolding coverage_keys_def by (intro distinct_concat_map) (auto simp: distinct_map inj_on_def)

lemma distinct_shifts_worked: "distinct (shifts_worked cfg n)"
  unfolding shifts_worked_def by (intro distinct_concat_map) (auto simp: distinct_map inj_on_def)

lemma set_coverage_keys:
  "set (coverage_keys cfg dep day) =
     {(d, n, dy, s). d = dep \<and> n < num_nurses cfg \<and> dy = day \<and> s < num_shifts day}"
  by (auto simp: coverage_keys_def)

lemma set_shifts_worked:
  "set (shifts_worked cfg n) =
     {(d, n', dy, s). d < num_departments cfg \<and> n' = n \<and> dy < num_days \<and> s < num_shifts dy}"
  by (force simp: shifts_worked_def)

lemma roster_satisfies:
  assumes chk: "roster_check cfg A" and bm: "build_model cfg = Inr (m, shifts)"
  shows "satisfies m (roster_solution shifts A)"
proof -
  note r = build_model_result[OF bm]
  let ?sol = "roster_solution shifts A"
  let ?D = "num_departments cfg"
  note c = chk[unfolded roster_check_def]
  note c_single = c[THEN conjunct2, THEN conjunct2, THEN conjunct1]
  note c_weekend = c[THEN conjunct2, THEN conjunct2, THEN conjunct2, THEN conjunct1]
  have inj: "inj_on shifts (dom shifts)"
    using shifts_of_inj[of cfg] r(3,4) by simp
  have leg: "set A \<subseteq> legal cfg"
    using chk by (auto simp: roster_check_def list_all_iff legal_def)
  have dA: "distinct A"
    using chk by (simp add: roster_check_def distinct_map)
  have W: "worked shifts ?sol ks = length (filter (\<lambda>a. a \<in> set ks) A)"
    if "set ks \<subseteq> legal cfg" and "distinct ks" for ks
    using worked_roster[OF inj _ that(2) dA] that(1) r(4) by simp
  have asg: "assigned shifts ?sol k = (k \<in> set A)" if "k \<in> legal cfg" for k
    using assigned_roster[OF inj, of k A] that r(4) by simp

  have cov: "holds ?sol c" if "c \<in> set (coverage_cs cfg shifts)" for c
  proof -
    from that obtain dep day where dep: "dep < ?D" and day: "day < num_days"
      and c: "c = key_constraint shifts (coverage_keys cfg dep day) Eq (int (num_shifts day))"
      by (auto simp: coverage_cs_def)
    have sub: "set (coverage_keys cfg dep day) \<subseteq> legal cfg"
      by (rule coverage_keys_legal[OF dep day])
    have "filter (\<lambda>a. a \<in> set (coverage_keys cfg dep day)) A =
          filter (\<lambda>(d, n, dy, s). d = dep \<and> dy = day) A"
      by (rule filter_cong) (use leg in \<open>auto simp: set_coverage_keys legal_def\<close>)
    moreover have "length (filter (\<lambda>(d, n, dy, s). d = dep \<and> dy = day) A) = num_shifts day"
      using chk dep day by (simp add: roster_check_def list_all_iff)
    ultimately have "worked shifts ?sol (coverage_keys cfg dep day) = num_shifts day"
      using W[OF sub distinct_coverage_keys] by simp
    then show ?thesis
      using sub r(4) by (simp add: c holds_key_constraint)
  qed

  have con: "holds ?sol c" if "c \<in> set (consecutive_cs cfg shifts (?D - 1))" for c
  proof -
    from that obtain ks where c: "c = Constraint ks Le 2" and "length ks = 2"
      by (auto simp: consecutive_cs_def key_constraint_def)
    then have "int (length ks) \<le> 2"
      by simp
    then show ?thesis
      unfolding c by (rule holds_le_length)
  qed

  have sd: "holds ?sol c" if "c \<in> set (single_department_cs cfg shifts)" for c
  proof -
    from that obtain n day where n: "n < num_nurses cfg" and day: "day < num_days"
      and c: "c = key_constraint shifts (day_keys cfg n day) Le 1"
      by (auto simp: single_department_cs_def)
    have sub: "set (day_keys cfg n day) \<subseteq> legal cfg"
      by (rule day_keys_legal[OF n day])
    have "filter (\<lambda>a. a \<in> set (day_keys cfg n day)) A =
          filter (\<lambda>a. (case a of (d, n', dy, s) \<Rightarrow> (n', dy)) = (n, day)) A"
      by (rule filter_cong) (use leg in \<open>auto simp: set_day_keys legal_def\<close>)
    moreover have "length (filter (\<lambda>a. (case a of (d, n', dy, s) \<Rightarrow> (n', dy)) = (n, day)) A) \<le> 1"
      by (rule distinct_map_filter_le1) (rule c_single)
    ultimately have "worked shifts ?sol (day_keys cfg n day) \<le> 1"
      using W[OF sub distinct_day_keys] by simp
    then show ?thesis
      using sub r(4) by (simp add: c holds_key_constraint)
  qed

  have we: "holds ?sol c" if "c \<in> set (weekend_cs cfg shifts)" for c
  proof -
    from that obtain n where n: "n < num_nurses cfg"
      and c: "c = key_constraint shifts (weekend_keys cfg n) Le 1"
      by (auto simp: weekend_cs_def)
    have sub: "set (weekend_keys cfg n) \<subseteq> legal cfg"
      by (rule weekend_keys_legal[OF n])
    have "filter (\<lambda>a. a \<in> set (weekend_keys cfg n)) A =
          filter (\<lambda>a. (case a of (d, n', dy, s) \<Rightarrow> n') = n)
            (filter (\<lambda>(d, n, dy, s). dy \<in> set weekends) A)"
      unfolding filter_filter
      by (rule filter_cong)
         (use leg in \<open>auto simp: set_weekend_keys legal_def weekends_list num_shifts_cases\<close>)
    moreover have "length (filter (\<lambda>a. (case a of (d, n', dy, s) \<Rightarrow> n') = n)
            (filter (\<lambda>(d, n, dy, s). dy \<in> set weekends) A)) \<le> 1"
      by (rule distinct_map_filter_le1) (rule c_weekend)
    ultimately have "worked shifts ?sol (weekend_keys cfg n) \<le> 1"
      using W[OF sub distinct_weekend_keys] by simp
    then show ?thesis
      using sub r(4) by (simp add: c holds_key_constraint)
  qed

  have fair: "holds ?sol c" if "c \<in> set (fairness_cs cfg shifts)" for c
  proof -
    from that obtain n where n: "n < num_nurses cfg"
      and c: "c = key_constraint shifts (shifts_worked cfg n) Ge (int (band_min cfg)) \<or>
              c = key_constraint shifts (shifts_worked cfg n) Le (int (band_max cfg))"
      by (auto simp: fairness_cs_def)
    have sub: "set (shifts_worked cfg n) \<subseteq> legal cfg"
      by (rule shifts_worked_legal[OF n])
    have "filter (\<lambda>a. a \<in> set (shifts_worked cfg n)) A = filter (\<lambda>(d, n', dy, s). n' = n) A"
      by (rule filter_cong) (use leg in \<open>auto simp: set_shifts_worked legal_def\<close>)
    moreover have "band_min cfg \<le> length (filter (\<lambda>(d, n', dy, s). n' = n) A) \<and>
        length (filter (\<lambda>(d, n', dy, s). n' = n) A) \<le> band_max cfg"
      using chk n by (simp add: roster_check_def list_all_iff)
    ultimately have "band_min cfg \<le> worked shifts ?sol (shifts_worked cfg n) \<and>
        worked shifts ?sol (shifts_worked cfg n) \<le> band_max cfg"
      using W[OF sub distinct_shifts_worked] by simp
    then show ?thesis
      using sub r(4) c by (auto simp: holds_key_constraint)
  qed

  define d where "d = num_departments cfg - 1"
  have c_rest: "\<forall>x \<in> set A. \<forall>y \<in> set A.
      (case x of (dx, nx, dyx, sx) \<Rightarrow> case y of (dy', ny, dyy, sy) \<Rightarrow>
         dx = d \<longrightarrow> dy' = d \<longrightarrow> \<not> (ny = nx \<and> dyx < num_days - 2 \<and> dyx < dyy \<and> dyy \<le> dyx + 2))"
    using c[THEN conjunct2, THEN conjunct2, THEN conjunct2, THEN conjunct2, THEN conjunct2]
    by (fastforce simp: list_all_iff Let_def d_def)

  have apart: False
    if "(d, n, day, s) \<in> set A" and "(d, n, nd, ns) \<in> set A"
      and "day < num_days - 2" and "(nd, ns) \<in> set (next_slots day)" for n day s nd ns
  proof -
    have "\<not> (n = n \<and> day < num_days - 2 \<and> day < nd \<and> nd \<le> day + 2)"
      using c_rest that(1,2) by fastforce
    moreover have "day < nd \<and> nd \<le> day + 2"
      using that(4) by (auto simp: next_slots_def)
    ultimately show False using that(3) by simp
  qed

  have rest: "holds ?sol c" if "c \<in> set (rest_cs cfg shifts (d))" for c
  proof -
    from that obtain n day s where n: "n < num_nurses cfg" and day: "day < num_days"
      and d5: "day < num_days - 2" and s: "s < num_shifts day"
      and c: "c \<in> set (rest_after shifts (d) n day s)"
      by (auto simp: rest_cs_def split: if_splits)
    have dep: "d < ?D" using r(1) by (simp add: d_def)
    have k: "(d, n, day, s) \<in> legal cfg"
      by (rule legalI[OF dep n day s])
    from c consider
      (pair) nd ns where "(nd, ns) \<in> set (next_slots day)"
        "c = key_constraint shifts [(d, n, day, s), (d, n, nd, ns)] Le 1"
      | (triple) nd ns where "(nd, ns) \<in> set (next_slots day)" "s < num_shifts day - 1"
        "c = key_constraint shifts
           [(d, n, day, s), (d, n, day, s + 1), (d, n, nd, ns)] Le 2"
      by (auto simp: rest_after_def split: if_splits)
    then show ?thesis
    proof cases
      case pair
      have k': "(d, n, nd, ns) \<in> legal cfg"
        using next_slots_legal[OF pair(1)] legalI[OF dep n] by blast
      have "\<not> ((d, n, day, s) \<in> set A \<and> (d, n, nd, ns) \<in> set A)"
        using apart[OF _ _ d5 pair(1)] by blast
      then have "worked shifts ?sol [(d, n, day, s), (d, n, nd, ns)] \<le> 1"
        by (auto simp: worked_def asg[OF k] asg[OF k'])
      then show ?thesis
        using k k' r(4) by (simp add: pair(2) holds_key_constraint)
    next
      case triple
      have k': "(d, n, nd, ns) \<in> legal cfg"
        using next_slots_legal[OF triple(1)] legalI[OF dep n] by blast
      have "s + 1 < num_shifts day" using triple(2) by simp
      then have k2: "(d, n, day, s + 1) \<in> legal cfg"
        by (rule legalI[OF dep n day])
      have "\<not> ((d, n, day, s) \<in> set A \<and> (d, n, nd, ns) \<in> set A)"
        using apart[OF _ _ d5 triple(1)] by blast
      then have "worked shifts ?sol
          [(d, n, day, s), (d, n, day, s + 1), (d, n, nd, ns)] \<le> 2"
        by (auto simp: worked_def asg[OF k] asg[OF k'])
      then show ?thesis
        using k k' k2 r(4) by (simp add: triple(3) holds_key_constraint)
    qed
  qed

  show ?thesis
    unfolding r(6) all_cs_def list_all_append
    using cov con rest sd we fair by (simp add: list_all_iff d_def)
qed

section \<open>Counting in slot-by-slot rosters\<close>

lemma length_filter_concat_map:
  "length (filter P (concat (map f xs))) = sum_list (map (\<lambda>x. length (filter P (f x))) xs)"
  by (induction xs) simp_all

lemma sum_list_single:
  assumes "distinct xs" and "x \<in> set xs" and "\<And>y. y \<in> set xs \<Longrightarrow> y \<noteq> x \<Longrightarrow> f y = (0::nat)"
  shows "sum_list (map f xs) = f x"
  using assms
proof (induction xs)
  case Nil
  then show ?case by simp
next
  case (Cons a xs)
  show ?case
  proof (cases "a = x")
    case True
    then have "x \<notin> set xs" using Cons.prems(1) by simp
    then have "\<forall>y \<in> set xs. f y = 0" using Cons.prems(3) by auto
    then have "sum_list (map f xs) = 0" by (simp add: sum_list_eq_0_iff)
    then show ?thesis using True by simp
  next
    case False
    then have "f a = 0" using Cons.prems(3) by simp
    moreover have "sum_list (map f xs) = f x"
      using Cons False by auto
    ultimately show ?thesis by simp
  qed
qed

lemma filter_concat_single:
  assumes "distinct xs" and "x \<in> set xs"
    and "\<And>y. y \<in> set xs \<Longrightarrow> y \<noteq> x \<Longrightarrow> filter P (f y) = []"
  shows "filter P (concat (map f xs)) = filter P (f x)"
  using assms
proof (induction xs)
  case Nil
  then show ?case by simp
next
  case (Cons a xs)
  show ?case
  proof (cases "a = x")
    case True
    then have "x \<notin> set xs" using Cons.prems(1) by simp
    then have "\<forall>y \<in> set xs. filter P (f y) = []" using Cons.prems(3) by auto
    then have "filter P (concat (map f xs)) = []"
      by (induction xs) simp_all
    then show ?thesis using True by simp
  next
    case False
    then have "filter P (f a) = []" using Cons.prems(3) by simp
    moreover have "filter P (concat (map f xs)) = filter P (f x)"
      using Cons False by auto
    ultimately show ?thesis by simp
  qed
qed

text \<open>How many keys of a slot-by-slot roster lie in one department on one day.\<close>

lemma coverage_count:
  assumes "dep < D" and "day < num_days"
  shows "length (filter (\<lambda>(d, n, dy, s). d = dep \<and> dy = day) (roster_of D staff)) =
         sum_list (map (\<lambda>s. length (staff dep day s)) [0..<num_shifts day])"
proof -
  let ?P = "\<lambda>(d, n, dy, s). d = dep \<and> dy = (day::nat)"
  define h where "h d dy = concat (map (\<lambda>s. map (\<lambda>n. (d, n, dy, s)) (staff d dy s))
      [0..<num_shifts dy])" for d dy :: nat
  define g where "g d = concat (map (\<lambda>dy. h d dy) [0..<num_days])" for d :: nat
  have r: "roster_of D staff = concat (map g [0..<D])"
    by (simp add: roster_of_def g_def[abs_def] h_def[abs_def])
  have "filter ?P (concat (map g [0..<D])) = filter ?P (g dep)"
    by (rule filter_concat_single) (use assms(1) in \<open>auto simp: g_def h_def filter_empty_conv\<close>)
  also have "\<dots> = filter ?P (h dep day)"
    unfolding g_def
    by (rule filter_concat_single) (use assms(2) in \<open>auto simp: h_def filter_empty_conv\<close>)
  also have "\<dots> = h dep day"
    by (rule filter_True) (auto simp: h_def)
  finally have "length (filter ?P (roster_of D staff)) = length (h dep day)"
    by (simp add: r)
  then show ?thesis
    by (simp add: h_def length_concat comp_def)
qed

text \<open>How many keys of a slot-by-slot roster belong to one nurse.\<close>

lemma nurse_count:
  "length (filter (\<lambda>(d, n', dy, s). n' = n) (roster_of D staff)) =
     sum_list (map (\<lambda>dep. sum_list (map (\<lambda>day. sum_list (map (\<lambda>s.
       length (filter (\<lambda>n'. n' = n) (staff dep day s)))
       [0..<num_shifts day])) [0..<num_days])) [0..<D])"
proof -
  have inner: "length (filter (\<lambda>(d, n', dy, s). n' = n) (map (\<lambda>n. (d, n, dy, s)) ns)) =
      length (filter (\<lambda>n'. n' = n) ns)" for d dy s and ns :: "nat list"
    by (induction ns) auto
  show ?thesis
    unfolding roster_of_def length_filter_concat_map inner ..
qed

section \<open>The rosters for the sizes of the program\<close>

lemma band_main: "band_min main_config = 1" "band_max main_config = 2"
  by (simp_all add: band_min_def band_max_def total_shifts_def main_config_def weekdays_def
      weekends_def num_weekday_shifts_def num_weekend_shifts_def)

lemma base_roster_list:
  "base_roster =
     [(0, 0, 0, 0), (0, 1, 0, 1), (0, 30, 1, 0), (0, 31, 1, 1), (0, 60, 2, 0), (0, 61, 2, 1),
      (0, 0, 3, 0), (0, 1, 3, 1), (0, 30, 4, 0), (0, 31, 4, 1), (0, 85, 5, 0), (0, 70, 6, 0),
      (1, 2, 0, 0), (1, 3, 0, 1), (1, 32, 1, 0), (1, 33, 1, 1), (1, 62, 2, 0), (1, 63, 2, 1),
      (1, 2, 3, 0), (1, 3, 3, 1), (1, 32, 4, 0), (1, 33, 4, 1), (1, 86, 5, 0), (1, 71, 6, 0),
      (2, 4, 0, 0), (2, 5, 0, 1), (2, 34, 1, 0), (2, 35, 1, 1), (2, 64, 2, 0), (2, 65, 2, 1),
      (2, 4, 3, 0), (2, 5, 3, 1), (2, 34, 4, 0), (2, 35, 4, 1), (2, 87, 5, 0), (2, 72, 6, 0),
      (3, 6, 0, 0), (3, 7, 0, 1), (3, 36, 1, 0), (3, 37, 1, 1), (3, 66, 2, 0), (3, 67, 2, 1),
      (3, 6, 3, 0), (3, 7, 3, 1), (3, 36, 4, 0), (3, 37, 4, 1), (3, 88, 5, 0), (3, 73, 6, 0),
      (4, 8, 0, 0), (4, 9, 0, 1), (4, 38, 1, 0), (4, 39, 1, 1), (4, 68, 2, 0), (4, 69, 2, 1),
      (4, 8, 3, 0), (4, 9, 3, 1), (4, 38, 4, 0), (4, 39, 4, 1), (4, 89, 5, 0), (4, 74, 6, 0),
      (5, 10, 0, 0), (5, 11, 0, 1), (5, 40, 1, 0), (5, 41, 1, 1), (5, 70, 2, 0), (5, 71, 2, 1),
      (5, 10, 3, 0), (5, 11, 3, 1), (5, 40, 4, 0), (5, 41, 4, 1), (5, 90, 5, 0), (5, 75, 6, 0),
      (6, 12, 0, 0), (6, 13, 0, 1), (6, 42, 1, 0), (6, 43, 1, 1), (6, 72, 2, 0), (6, 73, 2, 1),
      (6, 12, 3, 0), (6, 13, 3, 1), (6, 42, 4, 0), (6, 43, 4, 1), (6, 91, 5, 0), (6, 76, 6, 0),
      (7, 14, 0, 0), (7, 15, 0, 1), (7, 44, 1, 0), (7, 45, 1, 1), (7, 74, 2, 0), (7, 75, 2, 1),
      (7, 14, 3, 0), (7, 15, 3, 1), (7, 44, 4, 0), (7, 45, 4, 1), (7, 92, 5, 0), (7, 77, 6, 0),
      (8, 16, 0, 0), (8, 17, 0, 1), (8, 46, 1, 0), (8, 47, 1, 1), (8, 76, 2, 0), (8, 77, 2, 1),
      (8, 16, 3, 0), (8, 17, 3, 1), (8, 46, 4, 0), (8, 47, 4, 1), (8, 93, 5, 0), (8, 78, 6, 0),
      (9, 18, 0, 0), (9, 19, 0, 1), (9, 48, 1, 0), (9, 49, 1, 1), (9, 78, 2, 0), (9, 79, 2, 1),
      (9, 18, 3, 0), (9, 19, 3, 1), (9, 48, 4, 0), (9, 49, 4, 1), (9, 94, 5, 0), (9, 79, 6, 0),
      (10, 20, 0, 0), (10, 21, 0, 1), (10, 50, 1, 0), (10, 51, 1, 1), (10, 80, 2, 0),
      (10, 81, 2, 1), (10, 20, 3, 0), (10, 21, 3, 1), (10, 50, 4, 0), (10, 51, 4, 1),
      (10, 95, 5, 0), (10, 80, 6, 0), (11, 22, 0, 0), (11, 23, 0, 1), (11, 52, 1, 0),
      (11, 53, 1, 1), (11, 82, 2, 0), (11, 83, 2, 1), (11, 22, 3, 0), (11, 23, 3, 1),
      (11, 52, 4, 0), (11, 53, 4, 1), (11, 96, 5, 0), (11, 81, 6, 0), (12, 24, 0, 0),
      (12, 25, 0, 1), (12, 54, 1, 0), (12, 55, 1, 1), (12, 84, 2, 0), (12, 85, 2, 1),
      (12, 24, 3, 0), (12, 25, 3, 1), (12, 54, 4, 0), (12, 55, 4, 1), (12, 97, 5, 0),
      (12, 82, 6, 0), (13, 26, 0, 0), (13, 27, 0, 1), (13, 56, 1, 0), (13, 57, 1, 1),
      (13, 86, 2, 0), (13, 87, 2, 1), (13, 26, 3, 0), (13, 27, 3, 1), (13, 56, 4, 0),
      (13, 57, 4, 1), (13, 98, 5, 0), (13, 83, 6, 0), (14, 28, 0, 0), (14, 29, 0, 1),
      (14, 58, 1, 0), (14, 59, 1, 1), (14, 88, 2, 0), (14, 89, 2, 1), (14, 28, 3, 0),
      (14, 29, 3, 1), (14, 58, 4, 0), (14, 59, 4, 1), (14, 99, 5, 0), (14, 84, 6, 0)]"
  by (simp add: base_roster_def roster_of_def base_staff_def base_nurse_def num_days_def
      num_shifts_cases upt_rec)

lemma base_legal:
  "list_all (\<lambda>(dep, n, day, s).
     dep < num_departments main_config \<and> n < num_nurses main_config \<and> day < num_days \<and>
     s < num_shifts day) base_roster"
  unfolding base_roster_list by (simp add: main_config_def num_days_def num_shifts_cases)

lemma base_coverage:
  "list_all (\<lambda>dep. list_all (\<lambda>day.
      length (filter (\<lambda>(d, n, dy, s). d = dep \<and> dy = day) base_roster) = num_shifts day)
      [0..<num_days]) [0..<num_departments main_config]"
proof -
  have "length (filter (\<lambda>(d, n, dy, s). d = dep \<and> dy = day) base_roster) = num_shifts day"
    if "dep < 15" and "day < num_days" for dep day
    unfolding base_roster_def coverage_count[OF that]
    by (simp add: base_staff_def sum_list_triv)
  then show ?thesis
    unfolding list_all_iff by (auto simp: main_config_def)
qed

lemma base_single: "distinct (map (\<lambda>(d, n, dy, s). (n, dy)) base_roster)"
  unfolding base_roster_list by simp

lemma base_weekend:
  "distinct (map (\<lambda>(d, n, dy, s). n) (filter (\<lambda>(d, n, dy, s). dy \<in> set weekends) base_roster))"
  unfolding base_roster_list by (simp add: weekends_list)

lemma base_rest:
  "(let B = filter (\<lambda>(d, n, dy, s). d = num_departments main_config - 1) base_roster in
      list_all (\<lambda>(d, n, dy, s).
        list_all (\<lambda>(d', n', dy', s').
          \<not> (n' = n \<and> dy < num_days - 2 \<and> dy < dy' \<and> dy' \<le> dy + 2)) B) B)"
  unfolding base_roster_list by (simp add: main_config_def num_days_def)

lemma base_fair:
  "list_all (\<lambda>n.
      band_min main_config \<le> length (filter (\<lambda>(d, n', dy, s). n' = n) base_roster) \<and>
      length (filter (\<lambda>(d, n', dy, s). n' = n) base_roster) \<le> band_max main_config)
      [0..<num_nurses main_config]"
  unfolding band_main base_roster_def nurse_count
  by (simp add: main_config_def base_staff_def base_nurse_def num_days_def num_shifts_cases
      upt_rec)

lemma base_roster_check: "roster_check main_config base_roster"
  unfolding roster_check_def
  by (intro conjI base_legal base_coverage base_single base_weekend base_fair base_rest)

lemma crowded_roster_list:
  "crowded_roster =
     [(0, 0, 0, 0), (0, 1, 0, 0), (0, 30, 1, 0), (0, 31, 1, 1), (0, 60, 2, 0), (0, 61, 2, 1),
      (0, 0, 3, 0), (0, 1, 3, 1), (0, 30, 4, 0), (0, 31, 4, 1), (0, 85, 5, 0), (0, 70, 6, 0),
      (1, 2, 0, 0), (1, 3, 0, 1), (1, 32, 1, 0), (1, 33, 1, 1), (1, 62, 2, 0), (1, 63, 2, 1),
      (1, 2, 3, 0), (1, 3, 3, 1), (1, 32, 4, 0), (1, 33, 4, 1), (1, 86, 5, 0), (1, 71, 6, 0),
      (2, 4, 0, 0), (2, 5, 0, 1), (2, 34, 1, 0), (2, 35, 1, 1), (2, 64, 2, 0), (2, 65, 2, 1),
      (2, 4, 3, 0), (2, 5, 3, 1), (2, 34, 4, 0), (2, 35, 4, 1), (2, 87, 5, 0), (2, 72, 6, 0),
      (3, 6, 0, 0), (3, 7, 0, 1), (3, 36, 1, 0), (3, 37, 1, 1), (3, 66, 2, 0), (3, 67, 2, 1),
      (3, 6, 3, 0), (3, 7, 3, 1), (3, 36, 4, 0), (3, 37, 4, 1), (3, 88, 5, 0), (3, 73, 6, 0),
      (4, 8, 0, 0), (4, 9, 0, 1), (4, 38, 1, 0), (4, 39, 1, 1), (4, 68, 2, 0), (4, 69, 2, 1),
      (4, 8, 3, 0), (4, 9, 3, 1), (4, 38, 4, 0), (4, 39, 4, 1), (4, 89, 5, 0), (4, 74, 6, 0),
      (5, 10, 0, 0), (5, 11, 0, 1), (5, 40, 1, 0), (5, 41, 1, 1), (5, 70, 2, 0), (5, 71, 2, 1),
      (5, 10, 3, 0), (5, 11, 3, 1), (5, 40, 4, 0), (5, 41, 4, 1), (5, 90, 5, 0), (5, 75, 6, 0),
      (6, 12, 0, 0), (6, 13, 0, 1), (6, 42, 1, 0), (6, 43, 1, 1), (6, 72, 2, 0), (6, 73, 2, 1),
      (6, 12, 3, 0), (6, 13, 3, 1), (6, 42, 4, 0), (6, 43, 4, 1), (6, 91, 5, 0), (6, 76, 6, 0),
      (7, 14, 0, 0), (7, 15, 0, 1), (7, 44, 1, 0), (7, 45, 1, 1), (7, 74, 2, 0), (7, 75, 2, 1),
      (7, 14, 3, 0), (7, 15, 3, 1), (7, 44, 4, 0), (7, 45, 4, 1), (7, 92, 5, 0), (7, 77, 6, 0),
      (8, 16, 0, 0), (8, 17, 0, 1), (8, 46, 1, 0), (8, 47, 1, 1), (8, 76, 2, 0), (8, 77, 2, 1),
      (8, 16, 3, 0), (8, 17, 3, 1), (8, 46, 4, 0), (8, 47, 4, 1), (8, 93, 5, 0), (8, 78, 6, 0),
      (9, 18, 0, 0), (9, 19, 0, 1), (9, 48, 1, 0), (9, 49, 1, 1), (9, 78, 2, 0), (9, 79, 2, 1),
      (9, 18, 3, 0), (9, 19, 3, 1), (9, 48, 4, 0), (9, 49, 4, 1), (9, 94, 5, 0), (9, 79, 6, 0),
      (10, 20, 0, 0), (10, 21, 0, 1), (10, 50, 1, 0), (10, 51, 1, 1), (10, 80, 2, 0),
      (10, 81, 2, 1), (10, 20, 3, 0), (10, 21, 3, 1), (10, 50, 4, 0), (10, 51, 4, 1),
      (10, 95, 5, 0), (10, 80, 6, 0), (11, 22, 0, 0), (11, 23, 0, 1), (11, 52, 1, 0),
      (11, 53, 1, 1), (11, 82, 2, 0), (11, 83, 2, 1), (11, 22, 3, 0), (11, 23, 3, 1),
      (11, 52, 4, 0), (11, 53, 4, 1), (11, 96, 5, 0), (11, 81, 6, 0), (12, 24, 0, 0),
      (12, 25, 0, 1), (12, 54, 1, 0), (12, 55, 1, 1), (12, 84, 2, 0), (12, 85, 2, 1),
      (12, 24, 3, 0), (12, 25, 3, 1), (12, 54, 4, 0), (12, 55, 4, 1), (12, 97, 5, 0),
      (12, 82, 6, 0), (13, 26, 0, 0), (13, 27, 0, 1), (13, 56, 1, 0), (13, 57, 1, 1),
      (13, 86, 2, 0), (13, 87, 2, 1), (13, 26, 3, 0), (13, 27, 3, 1), (13, 56, 4, 0),
      (13, 57, 4, 1), (13, 98, 5, 0), (13, 83, 6, 0), (14, 28, 0, 0), (14, 29, 0, 1),
      (14, 58, 1, 0), (14, 59, 1, 1), (14, 88, 2, 0), (14, 89, 2, 1), (14, 28, 3, 0),
      (14, 29, 3, 1), (14, 58, 4, 0), (14, 59, 4, 1), (14, 99, 5, 0), (14, 84, 6, 0)]"
  by (simp add: crowded_roster_def roster_of_def crowded_staff_def base_nurse_def num_days_def
      num_shifts_cases upt_rec)

lemma crowded_legal:
  "list_all (\<lambda>(dep, n, day, s).
     dep < num_departments main_config \<and> n < num_nurses main_config \<and> day < num_days \<and>
     s < num_shifts day) crowded_roster"
  unfolding crowded_roster_list by (simp add: main_config_def num_days_def num_shifts_cases)

lemma crowded_coverage:
  "list_all (\<lambda>dep. list_all (\<lambda>day.
      length (filter (\<lambda>(d, n, dy, s). d = dep \<and> dy = day) crowded_roster) = num_shifts day)
      [0..<num_days]) [0..<num_departments main_config]"
proof -
  have "length (filter (\<lambda>(d, n, dy, s). d = dep \<and> dy = day) crowded_roster) = num_shifts day"
    if "dep < 15" and "day < num_days" for dep day
    unfolding crowded_roster_def coverage_count[OF that]
    by (auto simp: crowded_staff_def sum_list_triv num_shifts_cases upt_rec)
  then show ?thesis
    unfolding list_all_iff by (auto simp: main_config_def)
qed

lemma crowded_single: "distinct (map (\<lambda>(d, n, dy, s). (n, dy)) crowded_roster)"
  unfolding crowded_roster_list by simp

lemma crowded_weekend:
  "distinct (map (\<lambda>(d, n, dy, s). n) (filter (\<lambda>(d, n, dy, s). dy \<in> set weekends) crowded_roster))"
  unfolding crowded_roster_list by (simp add: weekends_list)

lemma crowded_rest:
  "(let B = filter (\<lambda>(d, n, dy, s). d = num_departments main_config - 1) crowded_roster in
      list_all (\<lambda>(d, n, dy, s).
        list_all (\<lambda>(d', n', dy', s').
          \<not> (n' = n \<and> dy < num_days - 2 \<and> dy < dy' \<and> dy' \<le> dy + 2)) B) B)"
  unfolding crowded_roster_list by (simp add: main_config_def num_days_def)

lemma crowded_fair:
  "list_all (\<lambda>n.
      band_min main_config \<le> length (filter (\<lambda>(d, n', dy, s). n' = n) crowded_roster) \<and>
      length (filter (\<lambda>(d, n', dy, s). n' = n) crowded_roster) \<le> band_max main_config)
      [0..<num_nurses main_config]"
  unfolding band_main crowded_roster_def nurse_count
  by (simp add: main_config_def crowded_staff_def base_nurse_def num_days_def num_shifts_cases
      upt_rec)

lemma crowded_roster_check: "roster_check main_config crowded_roster"
  unfolding roster_check_def
  by (intro conjI crowded_legal crowded_coverage crowded_single crowded_weekend crowded_fair crowded_rest)

lemma restless_roster_list:
  "restless_roster =
     [(0, 0, 0, 0), (0, 1, 0, 1), (0, 0, 1, 0), (0, 31, 1, 1), (0, 60, 2, 0), (0, 61, 2, 1),
      (0, 30, 3, 0), (0, 1, 3, 1), (0, 30, 4, 0), (0, 31, 4, 1), (0, 85, 5, 0), (0, 70, 6, 0),
      (1, 2, 0, 0), (1, 3, 0, 1), (1, 32, 1, 0), (1, 33, 1, 1), (1, 62, 2, 0), (1, 63, 2, 1),
      (1, 2, 3, 0), (1, 3, 3, 1), (1, 32, 4, 0), (1, 33, 4, 1), (1, 86, 5, 0), (1, 71, 6, 0),
      (2, 4, 0, 0), (2, 5, 0, 1), (2, 34, 1, 0), (2, 35, 1, 1), (2, 64, 2, 0), (2, 65, 2, 1),
      (2, 4, 3, 0), (2, 5, 3, 1), (2, 34, 4, 0), (2, 35, 4, 1), (2, 87, 5, 0), (2, 72, 6, 0),
      (3, 6, 0, 0), (3, 7, 0, 1), (3, 36, 1, 0), (3, 37, 1, 1), (3, 66, 2, 0), (3, 67, 2, 1),
      (3, 6, 3, 0), (3, 7, 3, 1), (3, 36, 4, 0), (3, 37, 4, 1), (3, 88, 5, 0), (3, 73, 6, 0),
      (4, 8, 0, 0), (4, 9, 0, 1), (4, 38, 1, 0), (4, 39, 1, 1), (4, 68, 2, 0), (4, 69, 2, 1),
      (4, 8, 3, 0), (4, 9, 3, 1), (4, 38, 4, 0), (4, 39, 4, 1), (4, 89, 5, 0), (4, 74, 6, 0),
      (5, 10, 0, 0), (5, 11, 0, 1), (5, 40, 1, 0), (5, 41, 1, 1), (5, 70, 2, 0), (5, 71, 2, 1),
      (5, 10, 3, 0), (5, 11, 3, 1), (5, 40, 4, 0), (5, 41, 4, 1), (5, 90, 5, 0), (5, 75, 6, 0),
      (6, 12, 0, 0), (6, 13, 0, 1), (6, 42, 1, 0), (6, 43, 1, 1), (6, 72, 2, 0), (6, 73, 2, 1),
      (6, 12, 3, 0), (6, 13, 3, 1), (6, 42, 4, 0), (6, 43, 4, 1), (6, 91, 5, 0), (6, 76, 6, 0),
      (7, 14, 0, 0), (7, 15, 0, 1), (7, 44, 1, 0), (7, 45, 1, 1), (7, 74, 2, 0), (7, 75, 2, 1),
      (7, 14, 3, 0), (7, 15, 3, 1), (7, 44, 4, 0), (7, 45, 4, 1), (7, 92, 5, 0), (7, 77, 6, 0),
      (8, 16, 0, 0), (8, 17, 0, 1), (8, 46, 1, 0), (8, 47, 1, 1), (8, 76, 2, 0), (8, 77, 2, 1),
      (8, 16, 3, 0), (8, 17, 3, 1), (8, 46, 4, 0), (8, 47, 4, 1), (8, 93, 5, 0), (8, 78, 6, 0),
      (9, 18, 0, 0), (9, 19, 0, 1), (9, 48, 1, 0), (9, 49, 1, 1), (9, 78, 2, 0), (9, 79, 2, 1),
      (9, 18, 3, 0), (9, 19, 3, 1), (9, 48, 4, 0), (9, 49, 4, 1), (9, 94, 5, 0), (9, 79, 6, 0),
      (10, 20, 0, 0), (10, 21, 0, 1), (10, 50, 1, 0), (10, 51, 1, 1), (10, 80, 2, 0),
      (10, 81, 2, 1), (10, 20, 3, 0), (10, 21, 3, 1), (10, 50, 4, 0), (10, 51, 4, 1),
      (10, 95, 5, 0), (10, 80, 6, 0), (11, 22, 0, 0), (11, 23, 0, 1), (11, 52, 1, 0),
      (11, 53, 1, 1), (11, 82, 2, 0), (11, 83, 2, 1), (11, 22, 3, 0), (11, 23, 3, 1),
      (11, 52, 4, 0), (11, 53, 4, 1), (11, 96, 5, 0), (11, 81, 6, 0), (12, 24, 0, 0),
      (12, 25, 0, 1), (12, 54, 1, 0), (12, 55, 1, 1), (12, 84, 2, 0), (12, 85, 2, 1),
      (12, 24, 3, 0), (12, 25, 3, 1), (12, 54, 4, 0), (12, 55, 4, 1), (12, 97, 5, 0),
      (12, 82, 6, 0), (13, 26, 0, 0), (13, 27, 0, 1), (13, 56, 1, 0), (13, 57, 1, 1),
      (13, 86, 2, 0), (13, 87, 2, 1), (13, 26, 3, 0), (13, 27, 3, 1), (13, 56, 4, 0),
      (13, 57, 4, 1), (13, 98, 5, 0), (13, 83, 6, 0), (14, 28, 0, 0), (14, 29, 0, 1),
      (14, 58, 1, 0), (14, 59, 1, 1), (14, 88, 2, 0), (14, 89, 2, 1), (14, 28, 3, 0),
      (14, 29, 3, 1), (14, 58, 4, 0), (14, 59, 4, 1), (14, 99, 5, 0), (14, 84, 6, 0)]"
  by (simp add: restless_roster_def roster_of_def restless_staff_def base_nurse_def num_days_def
      num_shifts_cases upt_rec)

lemma restless_legal:
  "list_all (\<lambda>(dep, n, day, s).
     dep < num_departments main_config \<and> n < num_nurses main_config \<and> day < num_days \<and>
     s < num_shifts day) restless_roster"
  unfolding restless_roster_list by (simp add: main_config_def num_days_def num_shifts_cases)

lemma restless_coverage:
  "list_all (\<lambda>dep. list_all (\<lambda>day.
      length (filter (\<lambda>(d, n, dy, s). d = dep \<and> dy = day) restless_roster) = num_shifts day)
      [0..<num_days]) [0..<num_departments main_config]"
proof -
  have "length (filter (\<lambda>(d, n, dy, s). d = dep \<and> dy = day) restless_roster) = num_shifts day"
    if "dep < 15" and "day < num_days" for dep day
    unfolding restless_roster_def coverage_count[OF that]
    by (auto simp: restless_staff_def sum_list_triv num_shifts_cases upt_rec)
  then show ?thesis
    unfolding list_all_iff by (auto simp: main_config_def)
qed

lemma restless_single: "distinct (map (\<lambda>(d, n, dy, s). (n, dy)) restless_roster)"
  unfolding restless_roster_list by simp

lemma restless_weekend:
  "distinct (map (\<lambda>(d, n, dy, s). n) (filter (\<lambda>(d, n, dy, s). dy \<in> set weekends) restless_roster))"
  unfolding restless_roster_list by (simp add: weekends_list)

lemma restless_rest:
  "(let B = filter (\<lambda>(d, n, dy, s). d = num_departments main_config - 1) restless_roster in
      list_all (\<lambda>(d, n, dy, s).
        list_all (\<lambda>(d', n', dy', s').
          \<not> (n' = n \<and> dy < num_days - 2 \<and> dy < dy' \<and> dy' \<le> dy + 2)) B) B)"
  unfolding restless_roster_list by (simp add: main_config_def num_days_def)

lemma restless_fair:
  "list_all (\<lambda>n.
      band_min main_config \<le> length (filter (\<lambda>(d, n', dy, s). n' = n) restless_roster) \<and>
      length (filter (\<lambda>(d, n', dy, s). n' = n) restless_roster) \<le> band_max main_config)
      [0..<num_nurses main_config]"
  unfolding band_main restless_roster_def nurse_count
  by (simp add: main_config_def restless_staff_def base_nurse_def num_days_def num_shifts_cases
      upt_rec)

lemma restless_roster_check: "roster_check main_config restless_roster"
  unfolding roster_check_def
  by (intro conjI restless_legal restless_coverage restless_single restless_weekend restless_fair restless_rest)

section \<open>Solutions of the model of the program\<close>

lemma main_build:
  obtains m where "build_model main_config = Inr (m, shifts_of main_config)"
proof -
  have "build_model main_config =
      Inr (adds (all_cs main_config (shifts_of main_config))
             (fst (create_variables main_config empty_model)), shifts_of main_config)"
    by (rule build_model_ok) (simp_all add: main_config_def shifts_of_def)
  then show ?thesis using that by blast
qed

lemma roster_assigned:
  assumes "build_model cfg = Inr (m, shifts)" and "k \<in> legal cfg"
  shows "assigned shifts (roster_solution shifts A) k = (k \<in> set A)"
proof -
  note r = build_model_result[OF assms(1)]
  have "inj_on shifts (dom shifts)"
    using shifts_of_inj[of cfg] r(3,4) by simp
  then show ?thesis
    using assigned_roster[of shifts k A] assms(2) r(4) by simp
qed

lemma roster_worked:
  assumes "build_model cfg = Inr (m, shifts)" and "roster_check cfg A"
    and "set ks \<subseteq> legal cfg" and "distinct ks"
  shows "worked shifts (roster_solution shifts A) ks = length (filter (\<lambda>a. a \<in> set ks) A)"
proof -
  note r = build_model_result[OF assms(1)]
  have "inj_on shifts (dom shifts)"
    using shifts_of_inj[of cfg] r(3,4) by simp
  moreover have "distinct A"
    using assms(2) by (simp add: roster_check_def distinct_map)
  ultimately show ?thesis
    using worked_roster[of shifts ks A] assms(3,4) r(4) by simp
qed

lemma set_cell_keys:
  "set (cell_keys cfg dep day s) = {(d, n, dy, s'). d = dep \<and> n < num_nurses cfg \<and> dy = day \<and> s' = s}"
  by (auto simp: cell_keys_def)

lemma distinct_cell_keys: "distinct (cell_keys cfg dep day s)"
  by (simp add: cell_keys_def distinct_map inj_on_def)

lemma cell_keys_legal:
  "dep < num_departments cfg \<Longrightarrow> day < num_days \<Longrightarrow> s < num_shifts day \<Longrightarrow>
     set (cell_keys cfg dep day s) \<subseteq> legal cfg"
  by (auto simp: set_cell_keys legal_def)

lemma roster_worked_cell:
  assumes "build_model cfg = Inr (m, shifts)" and "roster_check cfg A"
    and "dep < num_departments cfg" and "day < num_days" and "s < num_shifts day"
  shows "worked shifts (roster_solution shifts A) (cell_keys cfg dep day s) =
         length (filter (\<lambda>(d, n, dy, s'). d = dep \<and> dy = day \<and> s' = s) A)"
proof -
  have leg: "set A \<subseteq> legal cfg"
    using assms(2) by (auto simp: roster_check_def list_all_iff legal_def)
  have "filter (\<lambda>a. a \<in> set (cell_keys cfg dep day s)) A =
        filter (\<lambda>(d, n, dy, s'). d = dep \<and> dy = day \<and> s' = s) A"
    by (rule filter_cong) (use leg in \<open>auto simp: set_cell_keys legal_def\<close>)
  then show ?thesis
    using roster_worked[OF assms(1,2) cell_keys_legal[OF assms(3,4,5)] distinct_cell_keys]
    by simp
qed

text \<open>
  C1.  The claim asks for exactly one nurse in every slot.  The model built for the sizes
  of the program has a solution, the crowded roster, in which slot 0 of department 0 on
  Monday has two nurses and slot 1 has none: the coverage constraint only fixes the
  number of worked keys of a (department, day) pair, over both slots together.
\<close>

theorem coverage_two_nurses_one_slot:
  "case build_model main_config of
     Inl e \<Rightarrow> False
   | Inr (m, shifts) \<Rightarrow>
       satisfies m (roster_solution shifts crowded_roster) \<and>
       worked shifts (roster_solution shifts crowded_roster) (cell_keys main_config 0 0 0) = 2 \<and>
       worked shifts (roster_solution shifts crowded_roster) (cell_keys main_config 0 0 1) = 0"
proof -
  obtain m where bm: "build_model main_config = Inr (m, shifts_of main_config)"
    by (rule main_build)
  have sat: "satisfies m (roster_solution (shifts_of main_config) crowded_roster)"
    by (rule roster_satisfies[OF crowded_roster_check bm])
  have w0: "worked (shifts_of main_config) (roster_solution (shifts_of main_config) crowded_roster)
      (cell_keys main_config 0 0 0) = 2"
  proof -
    have "worked (shifts_of main_config) (roster_solution (shifts_of main_config) crowded_roster)
        (cell_keys main_config 0 0 0) =
        length (filter (\<lambda>(d, n, dy, s'). d = 0 \<and> dy = 0 \<and> s' = 0) crowded_roster)"
      by (rule roster_worked_cell[OF bm crowded_roster_check])
         (simp_all add: main_config_def num_days_def num_shifts_cases)
    also have "\<dots> = 2"
      unfolding crowded_roster_list by simp
    finally show ?thesis .
  qed
  have w1: "worked (shifts_of main_config) (roster_solution (shifts_of main_config) crowded_roster)
      (cell_keys main_config 0 0 1) = 0"
  proof -
    have "worked (shifts_of main_config) (roster_solution (shifts_of main_config) crowded_roster)
        (cell_keys main_config 0 0 1) =
        length (filter (\<lambda>(d, n, dy, s'). d = 0 \<and> dy = 0 \<and> s' = 1) crowded_roster)"
      by (rule roster_worked_cell[OF bm crowded_roster_check])
         (simp_all add: main_config_def num_days_def num_shifts_cases)
    also have "\<dots> = 0"
      unfolding crowded_roster_list by simp
    finally show ?thesis .
  qed
  show ?thesis
    using sat w0 w1 by (simp add: bm)
qed

text \<open>
  C2.  The claim asks that a nurse who works on day \<open>d\<close> works on neither of the next
  two days.  The model built for the sizes of the program has a solution, the restless
  roster, in which nurse 0 works slot 0 of department 0 on Monday and again on Tuesday:
  the rest constraints are only over the variables of the last department.
\<close>

theorem rest_only_in_last_department:
  "case build_model main_config of
     Inl e \<Rightarrow> False
   | Inr (m, shifts) \<Rightarrow>
       satisfies m (roster_solution shifts restless_roster) \<and>
       assigned shifts (roster_solution shifts restless_roster) (0, 0, 0, 0) \<and>
       assigned shifts (roster_solution shifts restless_roster) (0, 0, 1, 0)"
proof -
  obtain m where bm: "build_model main_config = Inr (m, shifts_of main_config)"
    by (rule main_build)
  have sat: "satisfies m (roster_solution (shifts_of main_config) restless_roster)"
    by (rule roster_satisfies[OF restless_roster_check bm])
  have l: "(0, 0, 0, 0) \<in> legal main_config" "(0, 0, 1, 0) \<in> legal main_config"
    by (simp_all add: legal_def main_config_def num_days_def num_shifts_cases)
  have a: "(0, 0, 0, 0) \<in> set restless_roster" "(0, 0, 1, 0) \<in> set restless_roster"
    unfolding restless_roster_list by simp_all
  have a1: "assigned (shifts_of main_config)
      (roster_solution (shifts_of main_config) restless_roster) (0, 0, 0, 0)"
    using a(1) by (simp only: roster_assigned[OF bm l(1)])
  have a2: "assigned (shifts_of main_config)
      (roster_solution (shifts_of main_config) restless_roster) (0, 0, 1, 0)"
    using a(2) by (simp only: roster_assigned[OF bm l(2)])
  show ?thesis
    using sat a1 a2 by (simp add: bm)
qed

theorem fairness_band_witness:
  "case build_model main_config of
     Inl e \<Rightarrow> False
   | Inr (m, shifts) \<Rightarrow>
       satisfies m (roster_solution shifts base_roster) \<and>
       0 < num_nurses main_config \<and>
       total_shifts main_config = 180 \<and>
       min_shifts_per_nurse main_config = Inr 1 \<and>
       max_shifts_per_nurse main_config = Inr 2 \<and>
       1 \<le> worked shifts (roster_solution shifts base_roster) (shifts_worked main_config 0) \<and>
       worked shifts (roster_solution shifts base_roster) (shifts_worked main_config 0) \<le> 2"
proof -
  obtain m where bm: "build_model main_config = Inr (m, shifts_of main_config)"
    by (rule main_build)
  have sat: "satisfies m (roster_solution (shifts_of main_config) base_roster)"
    by (rule roster_satisfies[OF base_roster_check bm])
  have n: "0 < num_nurses main_config"
    by (simp add: main_config_def)
  have t: "total_shifts main_config = 180"
    by (simp add: total_shifts_def main_config_def weekdays_def weekends_def
        num_weekday_shifts_def num_weekend_shifts_def)
  have mn: "min_shifts_per_nurse main_config = Inr 1"
    by (simp add: min_shifts_per_nurse_def floordiv_def t) (simp add: main_config_def)
  have mx: "max_shifts_per_nurse main_config = Inr 2"
    by (simp add: max_shifts_per_nurse_def mn t) (simp add: main_config_def)
  have "1 \<le> worked (shifts_of main_config) (roster_solution (shifts_of main_config) base_roster)
          (shifts_worked main_config 0) \<and>
        worked (shifts_of main_config) (roster_solution (shifts_of main_config) base_roster)
          (shifts_worked main_config 0) \<le> 2"
    using fairness_band[OF bm sat n] mn mx by blast
  then show ?thesis
    using sat n t mn mx by (simp add: bm)
qed

theorem single_department_per_day_witness:
  "case build_model main_config of
     Inl e \<Rightarrow> False
   | Inr (m, shifts) \<Rightarrow>
       satisfies m (roster_solution shifts base_roster) \<and>
       0 < num_nurses main_config \<and> 0 < num_days \<and>
       worked shifts (roster_solution shifts base_roster) (day_keys main_config 0 0) \<le> 1 \<and>
       assigned shifts (roster_solution shifts base_roster) (0, 0, 0, 0) \<and>
       \<not> assigned shifts (roster_solution shifts base_roster) (1, 0, 0, 0)"
proof -
  obtain m where bm: "build_model main_config = Inr (m, shifts_of main_config)"
    by (rule main_build)
  have sat: "satisfies m (roster_solution (shifts_of main_config) base_roster)"
    by (rule roster_satisfies[OF base_roster_check bm])
  have n: "0 < num_nurses main_config" and d: "0 < num_days"
    by (simp_all add: main_config_def num_days_def)
  have l: "(0, 0, 0, 0) \<in> legal main_config"
    by (simp add: legal_def main_config_def num_days_def num_shifts_cases)
  have "(0, 0, 0, 0) \<in> set base_roster"
    unfolding base_roster_list by simp
  then have a: "assigned (shifts_of main_config)
      (roster_solution (shifts_of main_config) base_roster) (0, 0, 0, 0)"
    by (simp add: roster_assigned[OF bm l])
  show ?thesis
    using single_department_per_day[OF bm sat n d] sat n d a
    by (auto simp: bm)
qed

theorem one_weekend_day_witness:
  "case build_model main_config of
     Inl e \<Rightarrow> False
   | Inr (m, shifts) \<Rightarrow>
       satisfies m (roster_solution shifts base_roster) \<and>
       85 < num_nurses main_config \<and>
       worked shifts (roster_solution shifts base_roster) (weekend_keys main_config 85) \<le> 1 \<and>
       assigned shifts (roster_solution shifts base_roster) (0, 85, 5, 0) \<and>
       \<not> assigned shifts (roster_solution shifts base_roster) (0, 85, 6, 0)"
proof -
  obtain m where bm: "build_model main_config = Inr (m, shifts_of main_config)"
    by (rule main_build)
  have sat: "satisfies m (roster_solution (shifts_of main_config) base_roster)"
    by (rule roster_satisfies[OF base_roster_check bm])
  have n: "85 < num_nurses main_config"
    by (simp add: main_config_def)
  have l: "(0, 85, 5, 0) \<in> legal main_config"
    by (simp add: legal_def main_config_def num_days_def num_shifts_cases)
  have "(0, 85, 5, 0) \<in> set base_roster"
    unfolding base_roster_list by simp
  then have a: "assigned (shifts_of main_config)
      (roster_solution (shifts_of main_config) base_roster) (0, 85, 5, 0)"
    by (simp add: roster_assigned[OF bm l])
  show ?thesis
    using one_weekend_day[OF bm sat n] sat n a
    by (auto simp: bm)
qed

section \<open>The solution callback: what it records\<close>

lemma for_each_append:
  "for_each (xs @ ys) body st =
     (case for_each xs body st of Inl e \<Rightarrow> Inl e | Inr st' \<Rightarrow> for_each ys body st')"
  by (induction xs arbitrary: st) (auto split: sum.splits)

lemma for_each_concat:
  "for_each (concat (map f xs)) body st = for_each xs (\<lambda>x. for_each (f x) body) st"
  by (induction xs arbitrary: st) (auto simp: for_each_append split: sum.splits)

lemma for_each_map: "for_each (map g xs) body st = for_each xs (\<lambda>x. body (g x)) st"
  by (induction xs arbitrary: st) (auto split: sum.splits)

lemma for_each_filter:
  "for_each xs (\<lambda>x st. if P x then body x st else Inr st) st = for_each (filter P xs) body st"
  by (induction xs arbitrary: st) (auto split: sum.splits)

lemma for_each_cong:
  "(\<And>x st. x \<in> set xs \<Longrightarrow> f x st = g x st) \<Longrightarrow> for_each xs f st = for_each xs g st"
  by (induction xs arbitrary: st) (auto split: sum.splits)

lemma for_each_fails:
  assumes "x \<in> set xs" and "\<And>st. \<exists>e. body x st = Inl e"
  shows "\<exists>e. for_each xs body st = Inl e"
  using assms(1)
proof (induction xs arbitrary: st)
  case Nil
  then show ?case by simp
next
  case (Cons a xs)
  show ?case
  proof (cases "body a st")
    case (Inl e)
    then show ?thesis by simp
  next
    case (Inr st')
    show ?thesis
    proof (cases "a = x")
      case True
      then show ?thesis using assms(2)[of st] Inr by simp
    next
      case False
      then have "x \<in> set xs" using Cons.prems by simp
      then show ?thesis using Cons.IH[of st'] Inr by simp
    qed
  qed
qed

lemma record_solution_writes:
  assumes "keys_ok p"
  shows "record_solution val p sched = for_each (writes val p) set_cell sched"
proof -
  have inner: "for_each [0..<self_num_nurses p] (\<lambda>n sched.
               case getitem (self_shifts p) (dep, n, day, s) of
                 Inl e \<Rightarrow> Inl e
               | Inr v \<Rightarrow> if val v then set_cell (dep, day, s, n) sched else Inr sched) st =
      for_each (map (\<lambda>n. (dep, day, s, n))
             (filter (\<lambda>n. assigned (self_shifts p) val (dep, n, day, s)) [0..<self_num_nurses p]))
        set_cell st"
    if "dep < self_num_departments p" and "day < self_num_days p"
      and "s < (if day < 5 then self_num_weekday_shifts p else self_num_weekend_shifts p)"
    for dep day s st
  proof -
    have "for_each [0..<self_num_nurses p] (\<lambda>n sched.
               case getitem (self_shifts p) (dep, n, day, s) of
                 Inl e \<Rightarrow> Inl e
               | Inr v \<Rightarrow> if val v then set_cell (dep, day, s, n) sched else Inr sched) st =
        for_each [0..<self_num_nurses p] (\<lambda>n sched.
               if assigned (self_shifts p) val (dep, n, day, s)
               then set_cell (dep, day, s, n) sched else Inr sched) st"
    proof (rule for_each_cong)
      fix n st'
      assume "n \<in> set [0..<self_num_nurses p]"
      then have "(dep, n, day, s) \<in> dom (self_shifts p)"
        using assms that by (simp add: keys_ok_def)
      then show "(case getitem (self_shifts p) (dep, n, day, s) of
                 Inl e \<Rightarrow> Inl e
               | Inr v \<Rightarrow> if val v then set_cell (dep, day, s, n) st' else Inr st') =
          (if assigned (self_shifts p) val (dep, n, day, s)
               then set_cell (dep, day, s, n) st' else Inr st')"
        by (auto simp: getitem_def assigned_def)
    qed
    then show ?thesis
      by (simp add: for_each_filter for_each_map)
  qed
  show ?thesis
    unfolding record_solution_def writes_def for_each_concat
    by (intro for_each_cong inner) simp_all
qed

lemma record_solution_keys:
  assumes "record_solution val p sched = Inr sched'"
  shows "keys_ok p"
proof (rule ccontr)
  assume "\<not> keys_ok p"
  then obtain dep day s n where dep: "dep < self_num_departments p" and day: "day < self_num_days p"
    and s: "s < (if day < 5 then self_num_weekday_shifts p else self_num_weekend_shifts p)"
    and n: "n < self_num_nurses p" and k: "self_shifts p (dep, n, day, s) = None"
    unfolding keys_ok_def dom_def by blast
  have f4: "\<exists>e. (case getitem (self_shifts p) (dep, n, day, s) of
                 Inl e \<Rightarrow> Inl e
               | Inr v \<Rightarrow> if val v then set_cell (dep, day, s, n) st else Inr st) = Inl e" for st
    using k by (simp add: getitem_def)
  have f3: "\<exists>e. for_each [0..<self_num_nurses p] (\<lambda>n sched.
               case getitem (self_shifts p) (dep, n, day, s) of
                 Inl e \<Rightarrow> Inl e
               | Inr v \<Rightarrow> if val v then set_cell (dep, day, s, n) sched else Inr sched) st = Inl e"
    for st
    by (rule for_each_fails[where x = n]) (use n f4 in auto)
  have f2: "\<exists>e. for_each
           [0..<(if day < 5 then self_num_weekday_shifts p else self_num_weekend_shifts p)]
           (\<lambda>s.
             for_each [0..<self_num_nurses p] (\<lambda>n sched.
               case getitem (self_shifts p) (dep, n, day, s) of
                 Inl e \<Rightarrow> Inl e
               | Inr v \<Rightarrow> if val v then set_cell (dep, day, s, n) sched else Inr sched)) st = Inl e"
    for st
    by (rule for_each_fails[where x = s]) (use s f3 in auto)
  have f1: "\<exists>e. for_each [0..<self_num_days p] (\<lambda>day.
         for_each
           [0..<(if day < 5 then self_num_weekday_shifts p else self_num_weekend_shifts p)]
           (\<lambda>s.
             for_each [0..<self_num_nurses p] (\<lambda>n sched.
               case getitem (self_shifts p) (dep, n, day, s) of
                 Inl e \<Rightarrow> Inl e
               | Inr v \<Rightarrow> if val v then set_cell (dep, day, s, n) sched else Inr sched))) st = Inl e"
    for st
    by (rule for_each_fails[where x = day]) (use day f2 in auto)
  have "\<exists>e. record_solution val p sched = Inl e"
    unfolding record_solution_def
    by (rule for_each_fails[where x = dep]) (use dep f1 in auto)
  then show False using assms by simp
qed

text \<open>Reading a cell after a list of writes.\<close>

lemma set_cell_read:
  assumes "set_cell w sched = Inr sched'"
  shows "schedule_at sched' dep day s =
         (if cell_of w = (dep, day, s) then Inr (Some (snd (snd (snd w))))
          else schedule_at sched dep day s)"
proof -
  obtain a b c d where w: "w = (a, b, c, d)"
    by (cases w)
  from assms obtain bd bs where bd: "sched a = Some bd" and bs: "bd b = Some bs"
    and r: "sched' = sched(a \<mapsto> bd(b \<mapsto> bs(c \<mapsto> Some d)))"
    by (auto simp: set_cell_def w split: option.splits)
  show ?thesis
  proof (cases "dep = a")
    case False
    then show ?thesis by (simp add: schedule_at_def r w cell_of_def)
  next
    case dep: True
    show ?thesis
    proof (cases "day = b")
      case False
      then show ?thesis using dep bd by (simp add: schedule_at_def r w cell_of_def)
    next
      case day: True
      show ?thesis
        using dep day bd bs by (simp add: schedule_at_def r w cell_of_def)
    qed
  qed
qed

lemma writes_read:
  assumes "for_each ws set_cell sched = Inr sched'"
  shows "schedule_at sched' dep day s =
         (case last_write (dep, day, s) ws of
            Some n \<Rightarrow> Inr (Some n)
          | None \<Rightarrow> schedule_at sched dep day s)"
  using assms
proof (induction ws arbitrary: sched)
  case Nil
  then show ?case by simp
next
  case (Cons w ws)
  from Cons.prems obtain s1 where s1: "set_cell w sched = Inr s1"
    and rest: "for_each ws set_cell s1 = Inr sched'"
    by (auto split: sum.splits)
  show ?case
    using Cons.IH[OF rest] set_cell_read[OF s1, of dep day s]
    by (cases w) (auto simp: cell_of_def split: option.splits)
qed

lemma last_write_filter:
  "last_write c ws =
     (if filter (\<lambda>w. cell_of w = c) ws = [] then None
      else Some (snd (snd (snd (last (filter (\<lambda>w. cell_of w = c) ws))))))"
  by (induction ws) (auto simp: cell_of_def split: option.splits prod.splits)

lemma last_filter_upt:
  assumes "\<exists>n<N. P n"
  shows "filter P [0..<N] \<noteq> [] \<and> last (filter P [0..<N]) = Max {n. n < N \<and> P n}"
  using assms
proof (induction N)
  case 0
  then show ?case by simp
next
  case (Suc N)
  show ?case
  proof (cases "P N")
    case True
    have "Max {n. n < Suc N \<and> P n} = N"
      by (rule Max_eqI) (use True in auto)
    then show ?thesis using True by simp
  next
    case False
    then have ex: "\<exists>n<N. P n"
      using Suc.prems less_Suc_eq by auto
    have "{n. n < Suc N \<and> P n} = {n. n < N \<and> P n}"
      using False less_Suc_eq by auto
    then show ?thesis using Suc.IH[OF ex] False by simp
  qed
qed

lemma writes_of_cell:
  assumes "dep < self_num_departments p" and "day < self_num_days p"
    and "s < (if day < 5 then self_num_weekday_shifts p else self_num_weekend_shifts p)"
  shows "filter (\<lambda>w. cell_of w = (dep, day, s)) (writes val p) =
         map (\<lambda>n. (dep, day, s, n))
           (filter (\<lambda>n. assigned (self_shifts p) val (dep, n, day, s)) [0..<self_num_nurses p])"
proof -
  let ?P = "\<lambda>w. cell_of w = (dep, day, s)"
  define f3 where "f3 d dy sl = map (\<lambda>n. (d, dy, sl, n))
      (filter (\<lambda>n. assigned (self_shifts p) val (d, n, dy, sl)) [0..<self_num_nurses p])"
    for d dy sl :: nat
  define f2 where "f2 d dy = concat (map (\<lambda>sl. f3 d dy sl)
      [0..<(if dy < 5 then self_num_weekday_shifts p else self_num_weekend_shifts p)])"
    for d dy :: nat
  define f1 where "f1 d = concat (map (\<lambda>dy. f2 d dy) [0..<self_num_days p])" for d :: nat
  have w: "writes val p = concat (map f1 [0..<self_num_departments p])"
    by (simp add: writes_def f1_def[abs_def] f2_def[abs_def] f3_def[abs_def])
  have "filter ?P (concat (map f1 [0..<self_num_departments p])) = filter ?P (f1 dep)"
    by (rule filter_concat_single)
       (use assms(1) in \<open>auto simp: f1_def f2_def f3_def filter_empty_conv cell_of_def\<close>)
  also have "\<dots> = filter ?P (f2 dep day)"
    unfolding f1_def
    by (rule filter_concat_single)
       (use assms(2) in \<open>auto simp: f2_def f3_def filter_empty_conv cell_of_def\<close>)
  also have "\<dots> = filter ?P (f3 dep day s)"
    unfolding f2_def
    by (rule filter_concat_single)
       (use assms(3) in \<open>auto simp: f3_def filter_empty_conv cell_of_def\<close>)
  also have "\<dots> = f3 dep day s"
    by (rule filter_True) (auto simp: f3_def cell_of_def)
  finally show ?thesis
    by (simp add: w f3_def)
qed

lemma last_write_cell:
  assumes "dep < self_num_departments p" and "day < self_num_days p"
    and "s < (if day < 5 then self_num_weekday_shifts p else self_num_weekend_shifts p)"
  shows "last_write (dep, day, s) (writes val p) =
         (if \<exists>n < self_num_nurses p. assigned (self_shifts p) val (dep, n, day, s)
          then Some (Max {n. n < self_num_nurses p \<and> assigned (self_shifts p) val (dep, n, day, s)})
          else None)"
proof (cases "\<exists>n < self_num_nurses p. assigned (self_shifts p) val (dep, n, day, s)")
  case True
  note l = last_filter_upt[OF True]
  show ?thesis
    using True l
    by (simp add: last_write_filter writes_of_cell[OF assms] last_map)
next
  case False
  then have "filter (\<lambda>n. assigned (self_shifts p) val (dep, n, day, s)) [0..<self_num_nurses p] = []"
    by (auto simp: filter_empty_conv)
  then show ?thesis
    using False by (simp add: last_write_filter writes_of_cell[OF assms])
qed

lemma init_schedule_at:
  assumes "dep < departments" and "day < days" and "s < (if day < 5 then wd else we)"
  shows "schedule_at (self_department_schedule (init_printer shifts nurses days wd we departments limit))
           dep day s = Inr None"
  using assms by (simp add: init_printer_def schedule_at_def dict_of_range_def)

lemma record_solution_count [simp]:
  "record_solution val (p\<lparr>self_solution_count := c\<rparr>) = record_solution val p"
  by (simp add: record_solution_def cong: if_cong)

lemma callback_schedule:
  assumes "on_solution_callback val p = Inr p'"
  shows "record_solution val p (self_department_schedule p) = Inr (self_department_schedule p')"
  using assms
  by (auto simp: on_solution_callback_def Let_def split: sum.splits if_splits)

text \<open>
  C10.  After one run of the callback on the freshly initialised printer, a cell whose
  department, day and slot are in range reads \<open>None\<close> exactly when no nurse's variable
  for that cell is true; and when some nurse's variable is true, the cell holds the
  largest such nurse index.
\<close>

theorem extraction_cells:
  assumes "on_solution_callback val (init_printer shifts nurses days wd we departments limit) = Inr p'"
    and "dep < departments" and "day < days" and "s < (if day < 5 then wd else we)"
  shows "(schedule_at (self_department_schedule p') dep day s = Inr None \<longleftrightarrow>
            (\<forall>n < nurses. \<not> assigned shifts val (dep, n, day, s))) \<and>
         ((\<exists>n < nurses. assigned shifts val (dep, n, day, s)) \<longrightarrow>
            schedule_at (self_department_schedule p') dep day s =
              Inr (Some (Max {n. n < nurses \<and> assigned shifts val (dep, n, day, s)})))"
proof -
  define p0 where "p0 = init_printer shifts nurses days wd we departments limit"
  have f: "self_shifts p0 = shifts" "self_num_nurses p0 = nurses" "self_num_days p0 = days"
    "self_num_weekday_shifts p0 = wd" "self_num_weekend_shifts p0 = we"
    "self_num_departments p0 = departments"
    by (simp_all add: p0_def init_printer_def)
  have rs: "record_solution val p0 (self_department_schedule p0) = Inr (self_department_schedule p')"
    using callback_schedule[OF assms(1)] by (simp add: p0_def)
  have ok: "keys_ok p0"
    by (rule record_solution_keys[OF rs])
  have ws: "for_each (writes val p0) set_cell (self_department_schedule p0) =
      Inr (self_department_schedule p')"
    using rs by (simp add: record_solution_writes[OF ok])
  have lw: "last_write (dep, day, s) (writes val p0) =
         (if \<exists>n < nurses. assigned shifts val (dep, n, day, s)
          then Some (Max {n. n < nurses \<and> assigned shifts val (dep, n, day, s)})
          else None)"
  proof -
    have "dep < self_num_departments p0" and "day < self_num_days p0"
      and "s < (if day < 5 then self_num_weekday_shifts p0 else self_num_weekend_shifts p0)"
      using assms(2,3,4) by (auto simp: f split: if_splits)
    from last_write_cell[OF this, of val] show ?thesis
      by (simp add: f)
  qed
  have i: "schedule_at (self_department_schedule p0) dep day s = Inr None"
    unfolding p0_def by (rule init_schedule_at[OF assms(2,3,4)])
  show ?thesis
    using writes_read[OF ws, of dep day s] lw i by auto
qed

lemma apply_writes_Nil: "apply_writes [] sched = sched"
proof (rule ext)
  fix dep
  show "apply_writes [] sched dep = sched dep"
  proof (cases "sched dep")
    case None
    then show ?thesis by (simp add: apply_writes_def)
  next
    case (Some bd)
    have "(\<lambda>day. map_option (\<lambda>by_slot s. by_slot s) (bd day)) = bd"
      by (rule ext) (simp add: option.map_ident)
    then show ?thesis using Some by (simp add: apply_writes_def)
  qed
qed

lemma set_cell_present:
  "set_cell w sched =
     (if present sched w
      then (case w of (dep, day, s, n) \<Rightarrow>
              Inr (sched(dep \<mapsto> (the (sched dep))(day \<mapsto> (the (the (sched dep) day))(s \<mapsto> Some n)))))
      else Inl KeyError)"
  by (cases w) (auto simp: set_cell_def present_def split: option.splits)

lemma present_set_cell:
  assumes "set_cell w sched = Inr sched'"
  shows "present sched' w' = present sched w'"
proof -
  obtain a b c d where w: "w = (a, b, c, d)" by (cases w)
  obtain a' b' c' d' where w': "w' = (a', b', c', d')" by (cases w')
  from assms obtain bd bs where bd: "sched a = Some bd" and bs: "bd b = Some bs"
    and r: "sched' = sched(a \<mapsto> bd(b \<mapsto> bs(c \<mapsto> Some d)))"
    by (auto simp: set_cell_def w split: option.splits)
  show ?thesis
    using bd bs by (auto simp: present_def w' r)
qed

lemma apply_writes_Cons:
  assumes "set_cell w sched = Inr sched'"
  shows "apply_writes ws sched' = apply_writes (w # ws) sched"
proof -
  obtain a b c d where w: "w = (a, b, c, d)" by (cases w)
  from assms obtain bd bs where bd: "sched a = Some bd" and bs: "bd b = Some bs"
    and r: "sched' = sched(a \<mapsto> bd(b \<mapsto> bs(c \<mapsto> Some d)))"
    by (auto simp: set_cell_def w split: option.splits)
  show ?thesis
  proof (rule ext)
    fix dep
    show "apply_writes ws sched' dep = apply_writes (w # ws) sched dep"
    proof (cases "dep = a")
      case False
      then show ?thesis
        by (auto simp: apply_writes_def r w map_option_case fun_eq_iff split: option.splits)
    next
      case True
      have "(\<lambda>day. map_option (\<lambda>by_slot s. case last_write (a, day, s) ws of
                  Some n \<Rightarrow> Some (Some n) | None \<Rightarrow> by_slot s)
                ((bd(b \<mapsto> bs(c \<mapsto> Some d))) day)) =
            (\<lambda>day. map_option (\<lambda>by_slot s. case last_write (a, day, s) (w # ws) of
                  Some n \<Rightarrow> Some (Some n) | None \<Rightarrow> by_slot s)
                (bd day))"
      proof (rule ext)
        fix day
        show "map_option (\<lambda>by_slot s. case last_write (a, day, s) ws of
                  Some n \<Rightarrow> Some (Some n) | None \<Rightarrow> by_slot s)
                ((bd(b \<mapsto> bs(c \<mapsto> Some d))) day) =
              map_option (\<lambda>by_slot s. case last_write (a, day, s) (w # ws) of
                  Some n \<Rightarrow> Some (Some n) | None \<Rightarrow> by_slot s)
                (bd day)"
        proof (cases "day = b")
          case False
          then show ?thesis
            by (cases "bd day") (auto simp: w fun_eq_iff split: option.splits)
        next
          case True
          then show ?thesis
            using bs by (auto simp: w fun_eq_iff split: option.splits)
        qed
      qed
      then show ?thesis
        using True bd by (simp add: apply_writes_def r)
    qed
  qed
qed

lemma for_each_set_cell:
  "for_each ws set_cell sched =
     (if \<forall>w \<in> set ws. present sched w then Inr (apply_writes ws sched) else Inl KeyError)"
proof (induction ws arbitrary: sched)
  case Nil
  then show ?case by (simp add: apply_writes_Nil)
next
  case (Cons w ws)
  show ?case
  proof (cases "present sched w")
    case False
    then show ?thesis by (simp add: set_cell_present)
  next
    case True
    then obtain s1 where s1: "set_cell w sched = Inr s1"
      by (cases w) (auto simp: set_cell_present)
    show ?thesis
      using True Cons.IH[of s1] present_set_cell[OF s1] apply_writes_Cons[OF s1, of ws]
      by (simp add: s1)
  qed
qed

lemma present_apply_writes: "present (apply_writes ws sched) w = present sched w"
  by (cases w) (auto simp: present_def apply_writes_def)

lemma apply_writes_idem: "apply_writes ws (apply_writes ws sched) = apply_writes ws sched"
proof (rule ext)
  fix dep
  show "apply_writes ws (apply_writes ws sched) dep = apply_writes ws sched dep"
  proof (cases "sched dep")
    case None
    then show ?thesis by (simp add: apply_writes_def)
  next
    case (Some bd)
    have "map_option (\<lambda>by_slot s. case last_write (dep, day, s) ws of
              Some n \<Rightarrow> Some (Some n) | None \<Rightarrow> by_slot s)
            (map_option (\<lambda>by_slot s. case last_write (dep, day, s) ws of
              Some n \<Rightarrow> Some (Some n) | None \<Rightarrow> by_slot s) (bd day)) =
          map_option (\<lambda>by_slot s. case last_write (dep, day, s) ws of
              Some n \<Rightarrow> Some (Some n) | None \<Rightarrow> by_slot s) (bd day)" for day
      by (cases "bd day") (auto simp: fun_eq_iff split: option.splits)
    then show ?thesis
      using Some by (simp add: apply_writes_def)
  qed
qed

text \<open>
  C8.  If the callback returns on a solution, then running it a second time on the same
  solution, from the state the first run left, returns as well and leaves the department
  schedule as the first run left it.
\<close>

theorem extraction_idempotent:
  assumes "on_solution_callback val p = Inr p'"
  shows "\<exists>p''. on_solution_callback val p' = Inr p'' \<and>
               self_department_schedule p'' = self_department_schedule p'"
proof -
  have rs: "record_solution val p (self_department_schedule p) = Inr (self_department_schedule p')"
    by (rule callback_schedule[OF assms])
  have ok: "keys_ok p"
    by (rule record_solution_keys[OF rs])
  have same: "self_shifts p' = self_shifts p" "self_num_nurses p' = self_num_nurses p"
    "self_num_days p' = self_num_days p" "self_num_departments p' = self_num_departments p"
    "self_num_weekday_shifts p' = self_num_weekday_shifts p"
    "self_num_weekend_shifts p' = self_num_weekend_shifts p"
    using assms
    by (auto simp: on_solution_callback_def Let_def split: sum.splits if_splits)
  have ok': "keys_ok p'"
    using ok by (simp add: keys_ok_def same cong: if_cong)
  have w': "writes val p' = writes val p"
    by (simp add: writes_def same cong: if_cong)
  let ?ws = "writes val p"
  from rs have ws: "for_each ?ws set_cell (self_department_schedule p) =
      Inr (self_department_schedule p')"
    by (simp add: record_solution_writes[OF ok])
  then have pres: "\<forall>w \<in> set ?ws. present (self_department_schedule p) w"
    and eq: "self_department_schedule p' = apply_writes ?ws (self_department_schedule p)"
    by (auto simp: for_each_set_cell split: if_splits)
  have "record_solution val p' (self_department_schedule p') =
      for_each ?ws set_cell (self_department_schedule p')"
    by (simp add: record_solution_writes[OF ok'] w')
  also have "\<dots> = Inr (apply_writes ?ws (self_department_schedule p'))"
    using pres by (simp add: for_each_set_cell eq present_apply_writes)
  also have "apply_writes ?ws (self_department_schedule p') = self_department_schedule p'"
    by (simp add: eq apply_writes_idem)
  finally have "record_solution val p' (self_department_schedule p') =
      Inr (self_department_schedule p')" .
  then show ?thesis
    by (simp add: on_solution_callback_def Let_def)
qed

lemma writes_in_range:
  assumes "w \<in> set (writes val p)"
  shows "fst w < self_num_departments p \<and> fst (snd w) < self_num_days p"
  using assms by (auto simp: writes_def)

lemma callback_init_ok:
  assumes "keys_ok (init_printer shifts nurses days wd we departments limit)"
  shows "\<exists>p'. on_solution_callback val (init_printer shifts nurses days wd we departments limit) = Inr p'"
proof -
  define p0 where "p0 = init_printer shifts nurses days wd we departments limit"
  have "present (self_department_schedule p0) w" if "w \<in> set (writes val p0)" for w
  proof -
    have "fst w < departments \<and> fst (snd w) < days"
      using writes_in_range[OF that] by (simp add: p0_def init_printer_def)
    then show ?thesis
      by (cases w) (auto simp: present_def p0_def init_printer_def dict_of_range_def)
  qed
  then have "record_solution val p0 (self_department_schedule p0) =
      Inr (apply_writes (writes val p0) (self_department_schedule p0))"
    using assms by (simp add: record_solution_writes p0_def[symmetric] for_each_set_cell)
  then show ?thesis
    unfolding p0_def[symmetric] by (simp add: on_solution_callback_def Let_def)
qed

lemma main_printer_ok:
  "\<exists>p'. on_solution_callback val (init_printer (shifts_of main_config) 100 7 2 1 15 1) = Inr p'"
proof (rule callback_init_ok)
  show "keys_ok (init_printer (shifts_of main_config) 100 7 2 1 15 1)"
    by (auto simp: keys_ok_def init_printer_def shifts_of_dom legal_def main_config_def
        num_days_def num_shifts_cases split: if_splits)
qed

theorem extraction_cells_witness:
  "case on_solution_callback (roster_solution (shifts_of main_config) crowded_roster)
          (init_printer (shifts_of main_config) 100 7 2 1 15 1) of
     Inl e \<Rightarrow> False
   | Inr p' \<Rightarrow>
       schedule_at (self_department_schedule p') 0 0 0 = Inr (Some 1) \<and>
       schedule_at (self_department_schedule p') 0 0 1 = Inr None"
proof -
  let ?sol = "roster_solution (shifts_of main_config) crowded_roster"
  obtain p' where cb: "on_solution_callback ?sol
      (init_printer (shifts_of main_config) 100 7 2 1 15 1) = Inr p'"
    using main_printer_ok by blast
  obtain m where bm: "build_model main_config = Inr (m, shifts_of main_config)"
    by (rule main_build)
  have a0: "assigned (shifts_of main_config) ?sol (0, n, 0, 0) = (n = 0 \<or> n = 1)" if "n < 100" for n
  proof -
    have "(0, n, 0, 0) \<in> legal main_config"
      using that by (simp add: legal_def main_config_def num_days_def num_shifts_cases)
    then have "assigned (shifts_of main_config) ?sol (0, n, 0, 0) = ((0, n, 0, 0) \<in> set crowded_roster)"
      by (rule roster_assigned[OF bm])
    also have "\<dots> = (n = 0 \<or> n = 1)"
      unfolding crowded_roster_list by auto
    finally show ?thesis .
  qed
  have a1: "\<not> assigned (shifts_of main_config) ?sol (0, n, 0, 1)" if "n < 100" for n
  proof -
    have "(0, n, 0, 1) \<in> legal main_config"
      using that by (simp add: legal_def main_config_def num_days_def num_shifts_cases)
    then have "assigned (shifts_of main_config) ?sol (0, n, 0, 1) = ((0, n, 0, 1) \<in> set crowded_roster)"
      by (rule roster_assigned[OF bm])
    also have "\<dots> = False"
      unfolding crowded_roster_list by auto
    finally show ?thesis by simp
  qed
  have "{n. n < 100 \<and> assigned (shifts_of main_config) ?sol (0, n, 0, 0)} = {0, 1}"
    using a0 by auto
  then have mx: "Max {n. n < 100 \<and> assigned (shifts_of main_config) ?sol (0, n, 0, 0)} = 1"
    by simp
  have "assigned (shifts_of main_config) ?sol (0, 0, 0, 0)"
    using a0[of 0] by simp
  then have ex: "\<exists>n<100. assigned (shifts_of main_config) ?sol (0, n, 0, 0)"
    by (intro exI[of _ 0]) simp
  have c0: "schedule_at (self_department_schedule p') 0 0 0 = Inr (Some 1)"
    using extraction_cells[OF cb, of 0 0 0] ex mx by simp
  have c1: "schedule_at (self_department_schedule p') 0 0 1 = Inr None"
    using extraction_cells[OF cb, of 0 0 1] a1 by simp
  show ?thesis
    unfolding cb using c0 c1 by simp
qed

theorem extraction_idempotent_witness:
  "case on_solution_callback (roster_solution (shifts_of main_config) base_roster)
          (init_printer (shifts_of main_config) 100 7 2 1 15 1) of
     Inl e \<Rightarrow> False
   | Inr p' \<Rightarrow>
       (case on_solution_callback (roster_solution (shifts_of main_config) base_roster) p' of
          Inl e \<Rightarrow> False
        | Inr p'' \<Rightarrow> self_department_schedule p'' = self_department_schedule p')"
proof -
  let ?sol = "roster_solution (shifts_of main_config) base_roster"
  obtain p' where cb: "on_solution_callback ?sol
      (init_printer (shifts_of main_config) 100 7 2 1 15 1) = Inr p'"
    using main_printer_ok by blast
  from extraction_idempotent[OF cb] obtain p'' where "on_solution_callback ?sol p' = Inr p''"
    and "self_department_schedule p'' = self_department_schedule p'"
    by blast
  then show ?thesis
    unfolding cb by simp
qed

section \<open>Absent keys\<close>














lemma legal_nonempty:
  assumes "k \<in> legal cfg"
  shows "0 < num_departments cfg \<and> 0 < num_nurses cfg"
  using assms by (cases k) (auto simp: legal_def)










end
